theory Spec2Isabelle
  imports Complex_Main "HOL-Library.Multiset"
begin

section \<open>Python values\<close>

text \<open>
  A Python \<open>str\<close> is a sequence of Unicode code points, so a character is its code point
  (\<open>ord(c)\<close>) and \<open>len\<close> is the length of the list. The entropy estimate of
  \<open>utils/crypto.py\<close> is modelled in real numbers, without rounding; the doubles of the
  generator are modelled with their rounding.
\<close>

type_synonym pystr = "nat list"

datatype error =
    ValueError string
  | IndexError
  | ZeroDivisionError
  | UnicodeEncodeError
  | UnicodeDecodeError
  | OSError
  | OverflowError

definition of_ascii :: "string \<Rightarrow> pystr" where
  "of_ascii s = map of_char s"

text \<open>
  The character predicates of \<open>str\<close> are Python's own. On ASCII they are fixed and written
  out here; above U+007F they are read from the Unicode database, which is taken as a
  parameter, as is \<open>str.capitalize\<close>.
\<close>

record unicode_db =
  u_islower :: "nat \<Rightarrow> bool"
  u_isupper :: "nat \<Rightarrow> bool"
  u_isdigit :: "nat \<Rightarrow> bool"
  u_isalnum :: "nat \<Rightarrow> bool"
  u_isspace :: "nat \<Rightarrow> bool"
  u_capitalize :: "pystr \<Rightarrow> pystr"

definition islower :: "unicode_db \<Rightarrow> nat \<Rightarrow> bool" where
  "islower U c = (if c < 128 then 97 \<le> c \<and> c \<le> 122 else u_islower U c)"

definition isupper :: "unicode_db \<Rightarrow> nat \<Rightarrow> bool" where
  "isupper U c = (if c < 128 then 65 \<le> c \<and> c \<le> 90 else u_isupper U c)"

definition isdigit :: "unicode_db \<Rightarrow> nat \<Rightarrow> bool" where
  "isdigit U c = (if c < 128 then 48 \<le> c \<and> c \<le> 57 else u_isdigit U c)"

definition isalnum :: "unicode_db \<Rightarrow> nat \<Rightarrow> bool" where
  "isalnum U c =
     (if c < 128 then (97 \<le> c \<and> c \<le> 122) \<or> (65 \<le> c \<and> c \<le> 90) \<or> (48 \<le> c \<and> c \<le> 57)
      else u_isalnum U c)"

definition isspace :: "unicode_db \<Rightarrow> nat \<Rightarrow> bool" where
  "isspace U c = (if c < 128 then (9 \<le> c \<and> c \<le> 13) \<or> (28 \<le> c \<and> c \<le> 32) else u_isspace U c)"

text \<open>A database in which no character above U+007F has any property; used for concrete runs.\<close>

definition no_unicode :: unicode_db where
  "no_unicode =
     \<lparr>u_islower = (\<lambda>c. False), u_isupper = (\<lambda>c. False), u_isdigit = (\<lambda>c. False),
      u_isalnum = (\<lambda>c. False), u_isspace = (\<lambda>c. False), u_capitalize = (\<lambda>w. w)\<rparr>"

subsection \<open>The constants of the \<open>string\<close> module\<close>

definition ascii_lowercase :: pystr where
  "ascii_lowercase = [97..<123]"

definition ascii_uppercase :: pystr where
  "ascii_uppercase = [65..<91]"

definition ascii_letters :: pystr where
  "ascii_letters = ascii_lowercase @ ascii_uppercase"

definition digits :: pystr where
  "digits = [48..<58]"

definition punctuation :: pystr where
  "punctuation = [33..<48] @ [58..<65] @ [91..<97] @ [123..<127]"

subsection \<open>\<open>math.log2\<close>\<close>

text \<open>
  \<open>math.log2\<close> raises \<open>ValueError\<close> outside its domain. HOL's \<open>log 2 0\<close> is the number 0,
  so the domain check is written out.
\<close>

definition math_log2 :: "real \<Rightarrow> error + real" where
  "math_log2 x = (if x \<le> 0 then Inl (ValueError ''math domain error'') else Inr (log 2 x))"

subsection \<open>Doubles\<close>

text \<open>
  The arithmetic of \<open>generate_passphrase\<close> is done in IEEE doubles, and there the
  rounding is modelled. A finite double is the real number it stands for.
  \<open>round_double\<close> rounds to the nearest double, ties to the even significand: 53
  significant bits, the least exponent \<open>-1022\<close>, and no bound on the exponent above, so
  that a rounded value of magnitude \<open>2^1024\<close> or more stands for an infinity.
\<close>

definition rne :: "real \<Rightarrow> int" where
  "rne y =
     (let f = \<lfloor>y\<rfloor> in
      if y - of_int f < 1 / 2 then f
      else if 1 / 2 < y - of_int f then f + 1
      else if even f then f else f + 1)"

definition double_ulp :: "real \<Rightarrow> real" where
  "double_ulp x = 2 powr (of_int (max \<lfloor>log 2 \<bar>x\<bar>\<rfloor> (- 1022)) - 52)"

definition round_double :: "real \<Rightarrow> real" where
  "round_double x = (if x = 0 then 0 else of_int (rne (x / double_ulp x)) * double_ulp x)"

definition double_overflow :: real where
  "double_overflow = 2 powr 1024"

text \<open>
  The conversion of an \<open>int\<close> operand to a float rounds correctly and raises
  \<open>OverflowError\<close> when the value is too large. A float division raises on a zero
  divisor and returns an infinity on overflow. \<open>math.ceil\<close> raises \<open>OverflowError\<close> on
  an infinity.
\<close>

definition float_of_int :: "int \<Rightarrow> error + real" where
  "float_of_int i =
     (let x = round_double (of_int i) in
      if double_overflow \<le> \<bar>x\<bar> then Inl OverflowError else Inr x)"

definition float_truediv :: "real \<Rightarrow> real \<Rightarrow> error + real" where
  "float_truediv a b = (if b = 0 then Inl ZeroDivisionError else Inr (round_double (a / b)))"

definition math_ceil :: "real \<Rightarrow> error + int" where
  "math_ceil x = (if double_overflow \<le> \<bar>x\<bar> then Inl OverflowError else Inr \<lceil>x\<rceil>)"

text \<open>
  \<open>math.log2\<close> on a positive \<open>int\<close> returns the double that the C library computes; how
  close it is to the logarithm is the library's matter. The generator takes it as the
  parameter \<open>log2d\<close>. A library that rounds the logarithm correctly is \<open>rounded_log2\<close>.
\<close>

definition rounded_log2 :: "nat \<Rightarrow> real" where
  "rounded_log2 n = round_double (log 2 (real n))"

section \<open>utils/crypto.py\<close>

definition encodable :: "nat \<Rightarrow> bool" where
  "encodable c = (c < 0xD800 \<or> (0xDFFF < c \<and> c < 0x110000))"

definition utf8_char :: "nat \<Rightarrow> nat list" where
  "utf8_char c =
     (if c < 0x80 then [c]
      else if c < 0x800 then [0xC0 + c div 64, 0x80 + c mod 64]
      else if c < 0x10000 then [0xE0 + c div 4096, 0x80 + (c div 64) mod 64, 0x80 + c mod 64]
      else [0xF0 + c div 262144, 0x80 + (c div 4096) mod 64, 0x80 + (c div 64) mod 64,
            0x80 + c mod 64])"

text \<open>\<open>password.encode('utf-8')\<close>: a lone surrogate cannot be encoded.\<close>

definition encode_utf8 :: "pystr \<Rightarrow> error + nat list" where
  "encode_utf8 s =
     (if list_all encodable s then Inr (concat (map utf8_char s)) else Inl UnicodeEncodeError)"

text \<open>
  \<open>hashlib.sha256(...).hexdigest()\<close> is the library's; the model takes it as the parameter
  \<open>sha256_hexdigest\<close>, from the encoded bytes to a digest.
\<close>

definition hash_password :: "(nat list \<Rightarrow> 'd) \<Rightarrow> pystr \<Rightarrow> error + 'd" where
  "hash_password sha256_hexdigest password =
     (case encode_utf8 password of
        Inl e \<Rightarrow> Inl e
      | Inr bs \<Rightarrow> Inr (sha256_hexdigest bs))"

definition calculate_entropy :: "unicode_db \<Rightarrow> pystr \<Rightarrow> real" where
  "calculate_entropy U password =
     (if password = [] then 0
      else
        let charset_size = (0::nat);
            has_lower = list_ex (islower U) password;
            has_upper = list_ex (isupper U) password;
            has_digit = list_ex (isdigit U) password;
            has_special = list_ex (\<lambda>c. c \<in> set punctuation) password;
            has_space = list_ex (isspace U) password;
            has_extended = list_ex (\<lambda>c. c > 127) password;
            charset_size = (if has_lower then charset_size + 26 else charset_size);
            charset_size = (if has_upper then charset_size + 26 else charset_size);
            charset_size = (if has_digit then charset_size + 10 else charset_size);
            charset_size = (if has_special then charset_size + length punctuation else charset_size);
            charset_size = (if has_space then charset_size + 1 else charset_size);
            charset_size = (if has_extended then charset_size + 100 else charset_size)
        in if charset_size = 0 then 0
           else real (length password) * log 2 (real charset_size))"

definition calculate_password_strength_score :: "real \<Rightarrow> bool \<Rightarrow> int" where
  "calculate_password_strength_score entropy is_common =
     (if is_common then 0
      else if entropy < 28 then 0
      else if entropy < 36 then 1
      else if entropy < 60 then 2
      else if entropy < 128 then 3
      else 4)"

subsection \<open>The entropy formula as the specification words it\<close>

datatype char_class = Lowercase | Uppercase | Digit | Punctuation | Whitespace | Extended

fun in_class :: "unicode_db \<Rightarrow> char_class \<Rightarrow> nat \<Rightarrow> bool" where
  "in_class U Lowercase c = islower U c"
| "in_class U Uppercase c = isupper U c"
| "in_class U Digit c = isdigit U c"
| "in_class U Punctuation c = (c \<in> set punctuation)"
| "in_class U Whitespace c = isspace U c"
| "in_class U Extended c = (c > 127)"

fun contribution :: "char_class \<Rightarrow> nat" where
  "contribution Lowercase = 26"
| "contribution Uppercase = 26"
| "contribution Digit = 10"
| "contribution Punctuation = length punctuation"
| "contribution Whitespace = 1"
| "contribution Extended = 100"

definition all_classes :: "char_class list" where
  "all_classes = [Lowercase, Uppercase, Digit, Punctuation, Whitespace, Extended]"

definition active_classes :: "unicode_db \<Rightarrow> pystr \<Rightarrow> char_class list" where
  "active_classes U p = filter (\<lambda>k. list_ex (in_class U k) p) all_classes"

definition spec_charset_size :: "unicode_db \<Rightarrow> pystr \<Rightarrow> nat" where
  "spec_charset_size U p = sum_list (map contribution (active_classes U p))"

text \<open>
  The specification's formula, \<open>length \<times> log2(charset_size)\<close> with 0 for the empty
  candidate, where \<open>log2\<close> is the partial function of the \<open>math\<close> module.
\<close>

definition spec_entropy :: "unicode_db \<Rightarrow> pystr \<Rightarrow> error + real" where
  "spec_entropy U p =
     (if p = [] then Inr 0
      else case math_log2 (real (spec_charset_size U p)) of
             Inl e \<Rightarrow> Inl e
           | Inr l \<Rightarrow> Inr (real (length p) * l))"

section \<open>Built-in string operations\<close>

definition strip :: "unicode_db \<Rightarrow> pystr \<Rightarrow> pystr" where
  "strip U s = rev (dropWhile (isspace U) (rev (dropWhile (isspace U) s)))"

definition startswith :: "pystr \<Rightarrow> pystr \<Rightarrow> bool" where
  "startswith s pre = (take (length pre) s = pre)"

fun str_join :: "pystr \<Rightarrow> pystr list \<Rightarrow> pystr" where
  "str_join sep [] = []"
| "str_join sep [x] = x"
| "str_join sep (x # y # ys) = x @ sep @ str_join sep (y # ys)"

fun str_nat :: "nat \<Rightarrow> pystr" where
  "str_nat n = (if n < 10 then [48 + n] else str_nat (n div 10) @ [48 + n mod 10])"

declare str_nat.simps [simp del]

definition str_int :: "int \<Rightarrow> pystr" where
  "str_int i = (if i < 0 then 45 # str_nat (nat (- i)) else str_nat (nat i))"

section \<open>The random source\<close>

text \<open>
  \<open>secrets.SystemRandom\<close> reads the operating system's generator. The model reads the
  draws from a stream: \<open>r i\<close> is the \<open>i\<close>-th raw draw, and \<open>_randbelow(n)\<close> reduces
  the next draw into \<open>range(n)\<close>. The methods below are the library's \<open>choice\<close>,
  \<open>randint\<close> and \<open>shuffle\<close>.
\<close>

type_synonym rng = "nat \<Rightarrow> nat"

definition randbelow :: "rng \<Rightarrow> nat \<Rightarrow> nat \<times> rng" where
  "randbelow r n = (r 0 mod n, \<lambda>i. r (Suc i))"

definition choice :: "rng \<Rightarrow> 'a list \<Rightarrow> error + ('a \<times> rng)" where
  "choice r seq =
     (if seq = [] then Inl IndexError
      else case randbelow r (length seq) of (i, r') \<Rightarrow> Inr (seq ! i, r'))"

definition randint :: "rng \<Rightarrow> int \<Rightarrow> int \<Rightarrow> error + (int \<times> rng)" where
  "randint r a b =
     (if b < a then Inl (ValueError ''empty range for randrange()'')
      else case randbelow r (nat (b - a + 1)) of (k, r') \<Rightarrow> Inr (a + int k, r'))"

text \<open>\<open>[rng.choice(seq) for _ in range(n)]\<close>, drawn left to right.\<close>

fun choose_n :: "rng \<Rightarrow> 'a list \<Rightarrow> nat \<Rightarrow> error + ('a list \<times> rng)" where
  "choose_n r seq 0 = Inr ([], r)"
| "choose_n r seq (Suc n) =
     (case choice r seq of
        Inl e \<Rightarrow> Inl e
      | Inr (x, r') \<Rightarrow>
          (case choose_n r' seq n of
             Inl e \<Rightarrow> Inl e
           | Inr (xs, r'') \<Rightarrow> Inr (x # xs, r'')))"

text \<open>
  \<open>shuffle\<close>: for \<open>i\<close> from \<open>len(x) - 1\<close> down to 1, draw \<open>j\<close> below \<open>i + 1\<close> and
  swap \<open>x[i]\<close> with \<open>x[j]\<close>.
\<close>

fun shuffle_from :: "nat \<Rightarrow> rng \<Rightarrow> 'a list \<Rightarrow> 'a list \<times> rng" where
  "shuffle_from 0 r x = (x, r)"
| "shuffle_from (Suc i) r x =
     (case randbelow r (Suc i + 1) of
        (j, r') \<Rightarrow> shuffle_from i r' (x[Suc i := x ! j, j := x ! Suc i]))"

definition shuffle :: "rng \<Rightarrow> 'a list \<Rightarrow> 'a list \<times> rng" where
  "shuffle r x = shuffle_from (length x - 1) r x"

section \<open>core/generator.py\<close>

record PasswordGenerator =
  rng :: rng
  eff_words :: "pystr list"

text \<open>
  Lines 52 to 57 of \<open>generate_passphrase\<close>: the number of words, computed in doubles, and
  their selection.
\<close>

definition words_needed :: "(nat \<Rightarrow> real) \<Rightarrow> pystr list \<Rightarrow> int \<Rightarrow> error + int" where
  "words_needed log2d words entropy =
     (if words = [] then Inl (ValueError ''math domain error'')
      else
        let bits_per_word = log2d (length words) in
        case float_of_int entropy of
          Inl e \<Rightarrow> Inl e
        | Inr x \<Rightarrow>
            (case float_truediv x bits_per_word of
               Inl e \<Rightarrow> Inl e
             | Inr q \<Rightarrow>
                 (case math_ceil q of
                    Inl e \<Rightarrow> Inl e
                  | Inr c \<Rightarrow> Inr (max 3 c))))"

definition select_words ::
  "(nat \<Rightarrow> real) \<Rightarrow> PasswordGenerator \<Rightarrow> int \<Rightarrow> error + (pystr list \<times> rng)" where
  "select_words log2d self entropy =
     (case words_needed log2d (eff_words self) entropy of
        Inl e \<Rightarrow> Inl e
      | Inr n \<Rightarrow> choose_n (rng self) (eff_words self) (nat n))"

definition generate_passphrase ::
  "unicode_db \<Rightarrow> (nat \<Rightarrow> real) \<Rightarrow> PasswordGenerator \<Rightarrow> int \<Rightarrow> pystr \<Rightarrow> bool \<Rightarrow> bool \<Rightarrow>
     error + (pystr \<times> PasswordGenerator)" where
  "generate_passphrase U log2d self entropy separator capitalize add_number =
     (case select_words log2d self entropy of
        Inl e \<Rightarrow> Inl e
      | Inr (words, r1) \<Rightarrow>
          let words = (if capitalize then map (u_capitalize U) words else words);
              passphrase = str_join separator words
          in if add_number
             then (case randint r1 10 99 of
                     Inl e \<Rightarrow> Inl e
                   | Inr (random_num, r2) \<Rightarrow>
                       Inr (passphrase @ str_int random_num, self\<lparr>rng := r2\<rparr>))
             else Inr (passphrase, self\<lparr>rng := r1\<rparr>))"

definition generate_mixed :: "PasswordGenerator \<Rightarrow> int \<Rightarrow> error + (pystr \<times> PasswordGenerator)" where
  "generate_mixed self len =
     (if len < 4 then Inl (ValueError ''Password length must be at least 4'')
      else
        let charset = ascii_letters @ digits @ punctuation in
        case choice (rng self) ascii_lowercase of Inl e \<Rightarrow> Inl e | Inr (c1, r1) \<Rightarrow>
        case choice r1 ascii_uppercase of Inl e \<Rightarrow> Inl e | Inr (c2, r2) \<Rightarrow>
        case choice r2 digits of Inl e \<Rightarrow> Inl e | Inr (c3, r3) \<Rightarrow>
        case choice r3 punctuation of Inl e \<Rightarrow> Inl e | Inr (c4, r4) \<Rightarrow>
        case choose_n r4 charset (nat (len - 4)) of Inl e \<Rightarrow> Inl e | Inr (rest, r5) \<Rightarrow>
        case shuffle r5 ([c1, c2, c3, c4] @ rest) of
          (password, r6) \<Rightarrow> Inr (password, self\<lparr>rng := r6\<rparr>))"

definition generate_alphanumeric ::
  "PasswordGenerator \<Rightarrow> int \<Rightarrow> error + (pystr \<times> PasswordGenerator)" where
  "generate_alphanumeric self len =
     (if len < 2 then Inl (ValueError ''Password length must be at least 2'')
      else
        let charset = ascii_letters @ digits in
        case choice (rng self) ascii_letters of Inl e \<Rightarrow> Inl e | Inr (c1, r1) \<Rightarrow>
        case choice r1 digits of Inl e \<Rightarrow> Inl e | Inr (c2, r2) \<Rightarrow>
        case choose_n r2 charset (nat (len - 2)) of Inl e \<Rightarrow> Inl e | Inr (rest, r3) \<Rightarrow>
        case shuffle r3 ([c1, c2] @ rest) of
          (password, r4) \<Rightarrow> Inr (password, self\<lparr>rng := r4\<rparr>))"

text \<open>\<open>str(rng.randint(0, 9)) for _ in range(length)\<close>: an empty range for a length below 1.\<close>

fun pin_digits :: "rng \<Rightarrow> nat \<Rightarrow> error + (pystr list \<times> rng)" where
  "pin_digits r 0 = Inr ([], r)"
| "pin_digits r (Suc n) =
     (case randint r 0 9 of
        Inl e \<Rightarrow> Inl e
      | Inr (d, r') \<Rightarrow>
          (case pin_digits r' n of
             Inl e \<Rightarrow> Inl e
           | Inr (ds, r'') \<Rightarrow> Inr (str_int d # ds, r'')))"

definition generate_pin :: "PasswordGenerator \<Rightarrow> int \<Rightarrow> error + (pystr \<times> PasswordGenerator)" where
  "generate_pin self len =
     (case pin_digits (rng self) (nat len) of
        Inl e \<Rightarrow> Inl e
      | Inr (ds, r') \<Rightarrow> Inr (str_join [] ds, self\<lparr>rng := r'\<rparr>))"

section \<open>core/checker.py\<close>

record 'd PasswordChecker =
  common_password_hashes :: "'d set"
  check_count :: nat

definition PasswordChecker_init :: "'d set \<Rightarrow> 'd PasswordChecker" where
  "PasswordChecker_init hashes = \<lparr>common_password_hashes = hashes, check_count = 0\<rparr>"

definition is_common_password ::
  "(nat list \<Rightarrow> 'd) \<Rightarrow> 'd PasswordChecker \<Rightarrow> pystr \<Rightarrow> (error + bool) \<times> 'd PasswordChecker" where
  "is_common_password sha self password =
     (let self = self\<lparr>check_count := check_count self + 1\<rparr> in
      case hash_password sha password of
        Inl e \<Rightarrow> (Inl e, self)
      | Inr pwd_hash \<Rightarrow> (Inr (pwd_hash \<in> common_password_hashes self), self))"

section \<open>utils/dictionary\_loader.py\<close>

text \<open>
  A dictionary file is bytes, and the codec that reads it is Python's. A raw line is
  modelled by its units: \<open>Enc c\<close> is a byte run in the UTF-8 form of the code point \<open>c\<close>,
  \<open>Malformed\<close> is a run of bytes that is no UTF-8. The codec decodes neither a surrogate
  nor anything past U+10FFFF, so such a form cannot be decoded either. The file is opened
  with \<open>errors='ignore'\<close>: what cannot be decoded is dropped and decoding goes on.
\<close>

datatype raw_unit = Enc nat | Malformed

type_synonym raw_line = "raw_unit list"


fun decode_ignore :: "raw_line \<Rightarrow> pystr" where
  "decode_ignore [] = []"
| "decode_ignore (Enc c # us) = (if encodable c then c # decode_ignore us else decode_ignore us)"
| "decode_ignore (Malformed # us) = decode_ignore us"

text \<open>
  What a path leads to: no file, a file that cannot be opened, a file read to its end, or
  a file whose reading fails after the given lines.
\<close>

datatype source =
    Missing
  | Unreadable
  | Readable "raw_line list"
  | ReadFailsAfter "raw_line list"

datatype message =
    FileNotFound string
  | Loaded nat string
  | EncodingError string
  | LoadError string

text \<open>
  \<open>path.name\<close> of \<open>pathlib\<close>, for POSIX paths: the last component of the path, where empty
  components and \<open>.\<close> do not count; the empty string when there is none.
\<close>

fun split_on :: "'a \<Rightarrow> 'a list \<Rightarrow> 'a list list" where
  "split_on s [] = [[]]"
| "split_on s (c # cs) =
     (if c = s then [] # split_on s cs
      else (case split_on s cs of
              [] \<Rightarrow> [[c]]
            | p # ps \<Rightarrow> (c # p) # ps))"

definition path_name :: "string \<Rightarrow> string" where
  "path_name file_path =
     (case filter (\<lambda>part. part \<noteq> [] \<and> part \<noteq> ''.'') (split_on (CHR ''/'') file_path) of
        [] \<Rightarrow> []
      | parts \<Rightarrow> last parts)"

text \<open>The loop over the lines of one file; an exception leaves the loop with the set as it is.\<close>

fun read_lines ::
  "(nat list \<Rightarrow> 'd) \<Rightarrow> unicode_db \<Rightarrow> raw_line list \<Rightarrow> 'd set \<Rightarrow> nat \<Rightarrow> 'd set \<times> (error + nat)" where
  "read_lines sha U [] password_hashes lines_processed = (password_hashes, Inr lines_processed)"
| "read_lines sha U (line # rest) password_hashes lines_processed =
     (let pwd = strip U (decode_ignore line) in
      if pwd \<noteq> [] \<and> \<not> startswith pwd (of_ascii ''#'')
      then (case hash_password sha pwd of
              Inl e \<Rightarrow> (password_hashes, Inl e)
            | Inr hashed \<Rightarrow>
                read_lines sha U rest (insert hashed password_hashes) (lines_processed + 1))
      else read_lines sha U rest password_hashes lines_processed)"

text \<open>The two handlers: \<open>except UnicodeDecodeError\<close> first, then \<open>except Exception\<close>.\<close>

definition on_exception :: "string \<Rightarrow> error \<Rightarrow> message" where
  "on_exception file_path e =
     (if e = UnicodeDecodeError then EncodingError file_path else LoadError file_path)"

definition load_file ::
  "(nat list \<Rightarrow> 'd) \<Rightarrow> unicode_db \<Rightarrow> (string \<Rightarrow> source) \<Rightarrow> 'd set \<times> message list \<Rightarrow> string \<Rightarrow>
     'd set \<times> message list" where
  "load_file sha U fs st file_path =
     (case st of (password_hashes, out) \<Rightarrow>
        (case fs file_path of
           Missing \<Rightarrow> (password_hashes, out @ [FileNotFound file_path])
         | Unreadable \<Rightarrow> (password_hashes, out @ [on_exception file_path OSError])
         | Readable lines \<Rightarrow>
             (case read_lines sha U lines password_hashes 0 of
                (hs, Inr n) \<Rightarrow> (hs, out @ [Loaded n (path_name file_path)])
              | (hs, Inl e) \<Rightarrow> (hs, out @ [on_exception file_path e]))
         | ReadFailsAfter lines \<Rightarrow>
             (case read_lines sha U lines password_hashes 0 of
                (hs, Inr n) \<Rightarrow> (hs, out @ [on_exception file_path OSError])
              | (hs, Inl e) \<Rightarrow> (hs, out @ [on_exception file_path e]))))"

definition load_password_dictionaries ::
  "(nat list \<Rightarrow> 'd) \<Rightarrow> unicode_db \<Rightarrow> (string \<Rightarrow> source) \<Rightarrow> string list \<Rightarrow> 'd set \<times> message list" where
  "load_password_dictionaries sha U fs file_paths = foldl (load_file sha U fs) ({}, []) file_paths"

section \<open>core/analyzer.py\<close>

text \<open>
  The result of the external estimator \<open>zxcvbn\<close>, which is a parameter of the model. The
  two keys read with \<open>.get\<close> may be absent.
\<close>

type_synonym match = "string \<rightharpoonup> pystr"

record zxcvbn_result =
  z_score :: int
  z_warning :: pystr
  z_suggestions :: "pystr list"
  z_crack_times_display :: "(string \<rightharpoonup> pystr) option"
  z_sequence :: "match list option"

text \<open>The dictionary that \<open>analyze\<close> returns, one field for each key.\<close>

record 'd analysis =
  r_password_length :: nat
  r_score :: int
  r_is_common :: bool
  r_hash :: 'd
  r_feedback :: "pystr list"
  r_entropy :: real
  r_crack_times :: "string \<rightharpoonup> pystr"
  r_sequence_info :: "match list"
  r_pattern_matches :: "match list"

record PasswordAnalyzer =
  analysis_count :: nat

definition breach_warning :: pystr where
  "breach_warning = [0x26A0, 0xFE0F] @ of_ascii ''  This password has been exposed in data breaches''"

definition generate_feedback ::
  "unicode_db \<Rightarrow> pystr \<Rightarrow> zxcvbn_result \<Rightarrow> bool \<Rightarrow> real \<Rightarrow> pystr list" where
  "generate_feedback U password zxcvbn_result is_common entropy =
     (let feedback = [];
          feedback = (if is_common then feedback @ [breach_warning] else feedback);
          feedback = (if z_warning zxcvbn_result \<noteq> [] then feedback @ [z_warning zxcvbn_result]
                      else feedback);
          feedback = feedback @ z_suggestions zxcvbn_result;
          feedback =
            (if length password < 12
             then feedback @ [of_ascii ''Use at least 12 characters for better security'']
             else if length password < 16
             then feedback @ [of_ascii ''Consider using 16+ characters for optimal security'']
             else feedback);
          feedback =
            (if entropy < 40
             then feedback @ [of_ascii ''Password has low entropy - add more character variety'']
             else feedback);
          has_lower = list_ex (islower U) password;
          has_upper = list_ex (isupper U) password;
          has_digit = list_ex (isdigit U) password;
          has_special = list_ex (\<lambda>c. \<not> isalnum U c) password;
          missing_types = [];
          missing_types = (if \<not> has_lower then missing_types @ [of_ascii ''lowercase letters'']
                           else missing_types);
          missing_types = (if \<not> has_upper then missing_types @ [of_ascii ''uppercase letters'']
                           else missing_types);
          missing_types = (if \<not> has_digit then missing_types @ [of_ascii ''numbers'']
                           else missing_types);
          missing_types = (if \<not> has_special then missing_types @ [of_ascii ''special characters'']
                           else missing_types);
          feedback =
            (if length missing_types > 0
             then feedback @
                  [of_ascii ''Add '' @ str_join (of_ascii '', '') missing_types @
                   of_ascii '' for better security'']
             else feedback)
      in feedback)"

definition pattern_info :: "match \<Rightarrow> match" where
  "pattern_info m =
     (let info = [''pattern'' \<mapsto> (case m ''pattern'' of None \<Rightarrow> of_ascii ''unknown'' | Some v \<Rightarrow> v),
                  ''token'' \<mapsto> (case m ''token'' of None \<Rightarrow> [] | Some v \<Rightarrow> v)]
      in if m ''pattern'' = Some (of_ascii ''dictionary'')
         then info(''dictionary_name'' \<mapsto> (case m ''dictionary_name'' of None \<Rightarrow> [] | Some v \<Rightarrow> v))
         else if m ''pattern'' = Some (of_ascii ''date'')
         then info(''year'' \<mapsto> (case m ''year'' of None \<Rightarrow> [] | Some v \<Rightarrow> v))
         else info)"

definition extract_pattern_info :: "zxcvbn_result \<Rightarrow> match list" where
  "extract_pattern_info zxcvbn_result =
     (case z_sequence zxcvbn_result of None \<Rightarrow> [] | Some ms \<Rightarrow> map pattern_info ms)"

definition analyze ::
  "unicode_db \<Rightarrow> (nat list \<Rightarrow> 'd) \<Rightarrow> (pystr \<Rightarrow> zxcvbn_result) \<Rightarrow> PasswordAnalyzer \<Rightarrow> pystr \<Rightarrow>
     'd PasswordChecker \<Rightarrow> (error + 'd analysis) \<times> PasswordAnalyzer \<times> 'd PasswordChecker" where
  "analyze U sha zxcvbn self password checker =
     (let self = self\<lparr>analysis_count := analysis_count self + 1\<rparr>;
          zxcvbn_result = zxcvbn password
      in case is_common_password sha checker password of
           (Inl e, checker) \<Rightarrow> (Inl e, self, checker)
         | (Inr is_common, checker) \<Rightarrow>
             (case hash_password sha password of
                Inl e \<Rightarrow> (Inl e, self, checker)
              | Inr pwd_hash \<Rightarrow>
                  let entropy = calculate_entropy U password;
                      feedback = generate_feedback U password zxcvbn_result is_common entropy
                  in (Inr \<lparr>r_password_length = length password,
                            r_score = z_score zxcvbn_result,
                            r_is_common = is_common,
                            r_hash = pwd_hash,
                            r_feedback = feedback,
                            r_entropy = entropy,
                            r_crack_times =
                              (case z_crack_times_display zxcvbn_result of
                                 None \<Rightarrow> Map.empty | Some ct \<Rightarrow> ct),
                            r_sequence_info =
                              (case z_sequence zxcvbn_result of None \<Rightarrow> [] | Some ms \<Rightarrow> ms),
                            r_pattern_matches = extract_pattern_info zxcvbn_result\<rparr>,
                      self, checker)))"

section \<open>Notions used in the statements\<close>

text \<open>The accuracy that the theorem asks of the library's \<open>log2\<close>.\<close>

definition log2_accurate :: "(nat \<Rightarrow> real) \<Rightarrow> nat \<Rightarrow> bool" where
  "log2_accurate log2d n = (\<bar>log2d n - log 2 (real n)\<bar> \<le> log 2 (real n) / 2 ^ 52)"

text \<open>The quotient that \<open>words_needed\<close> computes.\<close>

definition double_quotient :: "(nat \<Rightarrow> real) \<Rightarrow> nat \<Rightarrow> int \<Rightarrow> real" where
  "double_quotient log2d n e = round_double (round_double (of_int e) / log2d n)"

text \<open>The digest of a string that encodes: the hash of its UTF-8 bytes.\<close>

definition digest :: "(nat list \<Rightarrow> 'd) \<Rightarrow> pystr \<Rightarrow> 'd" where
  "digest sha pwd = sha (concat (map utf8_char pwd))"

text \<open>The entries of a file: its lines, decoded and stripped, without the empty ones and the comments.\<close>

definition entries :: "unicode_db \<Rightarrow> raw_line list \<Rightarrow> pystr list" where
  "entries U ls =
     filter (\<lambda>pwd. pwd \<noteq> [] \<and> \<not> startswith pwd (of_ascii ''#''))
       (map (\<lambda>line. strip U (decode_ignore line)) ls)"


text \<open>The names of the character kinds that the feedback finds missing, in the order of the checks.\<close>

definition missing_classes :: "unicode_db \<Rightarrow> pystr \<Rightarrow> pystr list" where
  "missing_classes U password =
     map snd (filter (\<lambda>(present, name). \<not> present)
       [(list_ex (islower U) password, of_ascii ''lowercase letters''),
        (list_ex (isupper U) password, of_ascii ''uppercase letters''),
        (list_ex (isdigit U) password, of_ascii ''numbers''),
        (list_ex (\<lambda>c. \<not> isalnum U c) password, of_ascii ''special characters'')])"

subsection \<open>Sample inputs\<close>

text \<open>
  Two dictionary files, one of them with bytes that are no UTF-8 in its only line, the
  same under a directory, and an estimator that scores \<open>password\<close> 0 and everything else 4. In the concrete runs the
  digest function is the identity on the encoded bytes.
\<close>

definition sample_fs :: "string \<Rightarrow> source" where
  "sample_fs p =
     (if p = ''common.txt''
      then Readable [map Enc (of_ascii ''# worst passwords'') @ [Enc 10],
                     map Enc (of_ascii '' password '') @ [Enc 10],
                     [Enc 10],
                     map Enc (of_ascii ''123456'') @ [Enc 10],
                     map Enc (of_ascii ''zT4qLw9XbV2mKp7RcY8s'') @ [Enc 10]]
      else if p = ''bad.txt''
      then Readable [[Enc 112, Malformed, Enc 119, Enc 10]]
      else Missing)"


definition sample_zxcvbn :: "pystr \<Rightarrow> zxcvbn_result" where
  "sample_zxcvbn password =
     (if password = of_ascii ''password''
      then \<lparr>z_score = 0, z_warning = of_ascii ''This is a top-10 common password'',
            z_suggestions = [of_ascii ''Add another word or two'', of_ascii ''Avoid repeats''],
            z_crack_times_display = None, z_sequence = None\<rparr>
      else \<lparr>z_score = 4, z_warning = [], z_suggestions = [],
            z_crack_times_display = None, z_sequence = None\<rparr>)"

section \<open>Facts about the entropy model\<close>

lemma length_punctuation: "length punctuation = 32"
  by (simp add: punctuation_def)

lemma in_class_fun:
  "in_class U Lowercase = islower U"
  "in_class U Uppercase = isupper U"
  "in_class U Digit = isdigit U"
  "in_class U Punctuation = (\<lambda>c. c \<in> set punctuation)"
  "in_class U Whitespace = isspace U"
  "in_class U Extended = (\<lambda>c. c > 127)"
  by (rule ext, simp)+

lemma charset_size_spec:
  "(let charset_size = (0::nat);
        charset_size = (if list_ex (islower U) p then charset_size + 26 else charset_size);
        charset_size = (if list_ex (isupper U) p then charset_size + 26 else charset_size);
        charset_size = (if list_ex (isdigit U) p then charset_size + 10 else charset_size);
        charset_size = (if list_ex (\<lambda>c. c \<in> set punctuation) p
                        then charset_size + length punctuation else charset_size);
        charset_size = (if list_ex (isspace U) p then charset_size + 1 else charset_size);
        charset_size = (if list_ex (\<lambda>c. c > 127) p then charset_size + 100 else charset_size)
    in charset_size) = spec_charset_size U p"
  by (simp add: spec_charset_size_def active_classes_def all_classes_def in_class_fun)

lemma calculate_entropy_charset:
  "calculate_entropy U p =
     (if p = [] \<or> spec_charset_size U p = 0 then 0
      else real (length p) * log 2 (real (spec_charset_size U p)))"
  using charset_size_spec [of U p] by (simp add: calculate_entropy_def Let_def)

lemmas char_defs = islower_def isupper_def isdigit_def isalnum_def isspace_def punctuation_def

lemma distinct_active_classes: "distinct (active_classes U p)"
  by (simp add: active_classes_def all_classes_def)

lemma spec_charset_size_sum:
  "spec_charset_size U p = sum contribution (set (active_classes U p))"
  by (simp add: spec_charset_size_def sum_list_distinct_conv_sum_set distinct_active_classes)

lemma contribution_pos: "0 < contribution k"
  by (cases k) (simp_all add: punctuation_def)

lemma spec_charset_size_zero: "spec_charset_size U p = 0 \<longleftrightarrow> active_classes U p = []"
proof
  assume z: "spec_charset_size U p = 0"
  show "active_classes U p = []"
  proof (rule ccontr)
    assume "active_classes U p \<noteq> []"
    then obtain k ks where "active_classes U p = k # ks" by (cases "active_classes U p") auto
    with z contribution_pos [of k] show False by (simp add: spec_charset_size_def)
  qed
next
  assume "active_classes U p = []"
  then show "spec_charset_size U p = 0" by (simp add: spec_charset_size_def)
qed

lemma active_classes_Nil: "active_classes U [] = []"
  by (simp add: active_classes_def all_classes_def)

lemma active_ex1: "active_classes no_unicode (of_ascii ''aB3'') = [Lowercase, Uppercase, Digit]"
  by (simp add: active_classes_def all_classes_def of_ascii_def char_defs no_unicode_def)

lemma active_ctl: "active_classes no_unicode [7] = []"
  by (simp add: active_classes_def all_classes_def char_defs no_unicode_def)

lemma active_space: "active_classes no_unicode [32] = [Whitespace]"
  by (simp add: active_classes_def all_classes_def char_defs no_unicode_def)

lemma active_ab: "active_classes no_unicode (of_ascii ''ab'') = [Lowercase]"
  by (simp add: active_classes_def all_classes_def of_ascii_def char_defs no_unicode_def)

lemma active_abc: "active_classes no_unicode (of_ascii ''abc'') = [Lowercase]"
  by (simp add: active_classes_def all_classes_def of_ascii_def char_defs no_unicode_def)

lemma active_a1: "active_classes no_unicode (of_ascii ''a1'') = [Lowercase, Digit]"
  by (simp add: active_classes_def all_classes_def of_ascii_def char_defs no_unicode_def)

text \<open>
  The classes overlap above U+007F: a non-ASCII lowercase letter, such as U+00E9 in
  Python's tables, counts both as lowercase and as extended.
\<close>

lemma classes_overlap:
  "u_islower U 233 \<Longrightarrow>
   Lowercase \<in> set (active_classes U [233]) \<and> Extended \<in> set (active_classes U [233])"
  by (simp add: active_classes_def all_classes_def islower_def)

lemma entropy_le_same_classes:
  assumes "active_classes U p = active_classes U q" and "length p \<le> length q"
    and "p \<noteq> []" and "q \<noteq> []"
  shows "calculate_entropy U p \<le> calculate_entropy U q"
proof -
  from assms(1) have cs: "spec_charset_size U p = spec_charset_size U q"
    by (simp add: spec_charset_size_def)
  show ?thesis
  proof (cases "spec_charset_size U q = 0")
    case True
    with cs show ?thesis by (simp add: calculate_entropy_charset)
  next
    case False
    then have "0 \<le> log 2 (real (spec_charset_size U q))" by simp
    moreover from assms(2) have "real (length p) \<le> real (length q)" by simp
    ultimately have "real (length p) * log 2 (real (spec_charset_size U q))
        \<le> real (length q) * log 2 (real (spec_charset_size U q))"
      by (rule mult_right_mono [rotated])
    with assms(3,4) cs False show ?thesis by (simp add: calculate_entropy_charset)
  qed
qed

lemma charset_size_new_class:
  assumes "k \<notin> set (active_classes U p)"
    and "set (active_classes U q) = insert k (set (active_classes U p))"
  shows "spec_charset_size U q = contribution k + spec_charset_size U p"
proof -
  have "sum contribution (insert k (set (active_classes U p)))
      = contribution k + sum contribution (set (active_classes U p))"
    using assms(1) by (intro sum.insert) simp_all
  with assms(2) show ?thesis by (simp only: spec_charset_size_sum)
qed

lemma entropy_less_new_class:
  assumes new: "k \<notin> set (active_classes U p)"
    and ins: "set (active_classes U q) = insert k (set (active_classes U p))"
    and len: "length p = length q" and ne: "p \<noteq> []"
    and nws: "set (active_classes U q) \<noteq> {Whitespace}"
  shows "calculate_entropy U p < calculate_entropy U q"
proof -
  have q: "q \<noteq> []" using len ne by auto
  have cs: "spec_charset_size U q = contribution k + spec_charset_size U p"
    using new ins by (rule charset_size_new_class)
  have big: "1 < spec_charset_size U q"
  proof (cases "active_classes U p = []")
    case True
    with ins nws have "k \<noteq> Whitespace" by auto
    then have "1 < contribution k" by (cases k) (simp_all add: punctuation_def)
    with cs show ?thesis by simp
  next
    case False
    then have "0 < spec_charset_size U p" using spec_charset_size_zero [of U p] by simp
    with cs contribution_pos [of k] show ?thesis by simp
  qed
  have lpos: "0 < real (length q)" using q by simp
  have eq: "calculate_entropy U q = real (length q) * log 2 (real (spec_charset_size U q))"
    using q big by (simp add: calculate_entropy_charset)
  show ?thesis
  proof (cases "spec_charset_size U p = 0")
    case True
    from big have "0 < log 2 (real (spec_charset_size U q))" by simp
    with lpos have "0 < real (length q) * log 2 (real (spec_charset_size U q))" by simp
    moreover from True have "calculate_entropy U p = 0" by (simp add: calculate_entropy_charset)
    ultimately show ?thesis using eq by simp
  next
    case False
    with cs contribution_pos [of k]
    have "real (spec_charset_size U p) < real (spec_charset_size U q)" by simp
    with False have "log 2 (real (spec_charset_size U p)) < log 2 (real (spec_charset_size U q))"
      by simp
    with lpos have "real (length q) * log 2 (real (spec_charset_size U p))
        < real (length q) * log 2 (real (spec_charset_size U q))"
      by simp
    moreover from False ne len
    have "calculate_entropy U p = real (length q) * log 2 (real (spec_charset_size U p))"
      by (simp add: calculate_entropy_charset)
    ultimately show ?thesis using eq by simp
  qed
qed

section \<open>The entropy formula\<close>

text \<open>
  Claim C4, as the code has it. Whenever at least one character class is present in the
  candidate, \<open>calculate_entropy\<close> returns the length times \<open>log2\<close> of the charset size,
  the sum of the fixed contributions (26, 26, 10, the size of the punctuation class, 1,
  100) of the classes present, however many characters each class has; this is the
  specification's formula, which is defined there. When no class is present the result
  is 0: that is the empty candidate, and also a candidate of ASCII control characters
  only, for which the guard on a charset size of 0 returns 0 where \<open>log2\<close> has no value.
\<close>

theorem calculate_entropy_formula:
  "(active_classes U p \<noteq> [] \<longrightarrow>
      spec_entropy U p = Inr (calculate_entropy U p) \<and>
      calculate_entropy U p =
        real (length p) * log 2 (real (sum_list (map contribution (active_classes U p))))) \<and>
   (active_classes U p = [] \<longrightarrow> calculate_entropy U p = 0) \<and>
   calculate_entropy U [] = 0"
proof (intro conjI impI)
  assume a: "active_classes U p \<noteq> []"
  then have ne: "p \<noteq> []" using active_classes_Nil by auto
  from a have pos: "spec_charset_size U p \<noteq> 0" by (simp add: spec_charset_size_zero)
  from ne pos show "spec_entropy U p = Inr (calculate_entropy U p)"
    by (simp add: spec_entropy_def math_log2_def calculate_entropy_charset)
  from ne pos have "calculate_entropy U p = real (length p) * log 2 (real (spec_charset_size U p))"
    by (simp add: calculate_entropy_charset)
  then show "calculate_entropy U p =
        real (length p) * log 2 (real (sum_list (map contribution (active_classes U p))))"
    by (simp only: spec_charset_size_def)
next
  assume "active_classes U p = []"
  then show "calculate_entropy U p = 0"
    by (simp add: calculate_entropy_charset spec_charset_size_zero)
next
  show "calculate_entropy U [] = 0" by (simp add: calculate_entropy_def)
qed

text \<open>The formula on \<open>aB3\<close>: three classes, charset size 62.\<close>

theorem calculate_entropy_formula_witness:
  "calculate_entropy no_unicode (of_ascii ''aB3'') = 3 * log 2 62 \<and>
   spec_entropy no_unicode (of_ascii ''aB3'') = Inr (3 * log 2 62) \<and>
   calculate_entropy no_unicode [] = 0"
  using calculate_entropy_formula [of no_unicode "of_ascii ''aB3''"]
  by (simp add: active_ex1) (simp add: of_ascii_def)

text \<open>
  Claim C4 as stated fails on a non-empty candidate without any class: for the single
  character U+0007 the charset size is 0, the formula \<open>1 \<times> log2(0)\<close> is a domain error
  of \<open>math.log2\<close>, and the code returns 0.
\<close>

theorem calculate_entropy_formula_counterexample:
  "calculate_entropy no_unicode [7] = 0 \<and>
   spec_entropy no_unicode [7] = Inl (ValueError ''math domain error'') \<and>
   spec_entropy no_unicode [7] \<noteq> Inr (calculate_entropy no_unicode [7])"
  by (simp add: calculate_entropy_charset spec_entropy_def math_log2_def spec_charset_size_zero active_ctl)

section \<open>Monotonicity of the entropy\<close>

text \<open>
  Claim C5, as the code has it. Among non-empty candidates with the same active classes
  the entropy does not decrease with the length. At a fixed length, a candidate in which
  one more class (of positive contribution) is present has strictly greater entropy,
  provided whitespace is not its only class: a charset size of 1 gives \<open>log2 1 = 0\<close>.
\<close>

theorem calculate_entropy_monotone:
  "(p \<noteq> [] \<and> q \<noteq> [] \<and> active_classes U p = active_classes U q \<and> length p \<le> length q \<longrightarrow>
      calculate_entropy U p \<le> calculate_entropy U q) \<and>
   (p \<noteq> [] \<and> length p = length q \<and> k \<notin> set (active_classes U p) \<and>
    set (active_classes U q) = insert k (set (active_classes U p)) \<and> 0 < contribution k \<and>
    set (active_classes U q) \<noteq> {Whitespace} \<longrightarrow>
      calculate_entropy U p < calculate_entropy U q)"
  using entropy_le_same_classes [of U p q] entropy_less_new_class [of k U p q] by blast

theorem calculate_entropy_monotone_witness:
  "calculate_entropy no_unicode (of_ascii ''ab'') \<le> calculate_entropy no_unicode (of_ascii ''abc'') \<and>
   calculate_entropy no_unicode (of_ascii ''ab'') < calculate_entropy no_unicode (of_ascii ''a1'')"
proof
  show "calculate_entropy no_unicode (of_ascii ''ab'') \<le> calculate_entropy no_unicode (of_ascii ''abc'')"
    using calculate_entropy_monotone [of "of_ascii ''ab''" "of_ascii ''abc''" no_unicode]
    by (simp add: active_ab active_abc) (simp add: of_ascii_def)
  show "calculate_entropy no_unicode (of_ascii ''ab'') < calculate_entropy no_unicode (of_ascii ''a1'')"
    using calculate_entropy_monotone [of "of_ascii ''ab''" "of_ascii ''a1''" no_unicode Digit]
    by (simp add: active_ab active_a1 insert_commute) (simp add: of_ascii_def)
qed

text \<open>
  Claim C5 as stated fails when the new class is whitespace and no class was present
  before: U+0007 has no class and entropy 0, a blank has the class whitespace, of
  contribution 1, and entropy \<open>1 \<times> log2 1 = 0\<close>, which is not greater.
\<close>

theorem calculate_entropy_monotone_counterexample:
  "length [7::nat] = length [32::nat] \<and>
   Whitespace \<notin> set (active_classes no_unicode [7]) \<and>
   set (active_classes no_unicode [32]) = insert Whitespace (set (active_classes no_unicode [7])) \<and>
   0 < contribution Whitespace \<and>
   calculate_entropy no_unicode [7] = 0 \<and> calculate_entropy no_unicode [32] = 0 \<and>
   \<not> calculate_entropy no_unicode [7] < calculate_entropy no_unicode [32]"
  by (simp add: calculate_entropy_charset spec_charset_size_zero active_ctl active_space)
    (simp add: spec_charset_size_def active_space)

section \<open>Facts about the random source\<close>

lemma randbelow_less: "0 < n \<Longrightarrow> fst (randbelow r n) < n"
  by (simp add: randbelow_def)

lemma choice_Inr:
  assumes "seq \<noteq> []"
  shows "\<exists>x r'. choice r seq = Inr (x, r') \<and> x \<in> set seq"
proof -
  obtain i r' where rb: "randbelow r (length seq) = (i, r')" by (cases "randbelow r (length seq)")
  with assms randbelow_less [of "length seq" r] have "i < length seq" by simp
  with assms rb show ?thesis by (simp add: choice_def)
qed

lemma choose_n_Inr:
  assumes "seq \<noteq> []"
  shows "\<exists>xs r'. choose_n r seq n = Inr (xs, r') \<and> length xs = n \<and> set xs \<subseteq> set seq"
proof (induction n arbitrary: r)
  case 0
  show ?case by simp
next
  case (Suc n)
  from choice_Inr [OF assms] obtain x r1 where c: "choice r seq = Inr (x, r1)" "x \<in> set seq"
    by blast
  from Suc.IH obtain xs r2 where
    n: "choose_n r1 seq n = Inr (xs, r2)" "length xs = n" "set xs \<subseteq> set seq"
    by blast
  from c n show ?case by simp
qed

lemma shuffle_from_mset:
  "i < length x \<Longrightarrow> mset (fst (shuffle_from i r x)) = mset x"
proof (induction i arbitrary: r x)
  case 0
  show ?case by simp
next
  case (Suc i)
  obtain j r' where rb: "randbelow r (Suc i + 1) = (j, r')" by (cases "randbelow r (Suc i + 1)")
  with randbelow_less [of "Suc i + 1" r] have "j < Suc i + 1" by simp
  with Suc.prems have j: "j < length x" by simp
  let ?y = "x[Suc i := x ! j, j := x ! Suc i]"
  from j Suc.prems have sw: "mset ?y = mset x" by (simp add: mset_swap)
  have "i < length ?y" using Suc.prems by simp
  then have "mset (fst (shuffle_from i r' ?y)) = mset ?y" by (rule Suc.IH)
  with rb sw show ?case by simp
qed

lemma shuffle_mset: "mset (fst (shuffle r x)) = mset x"
proof (cases x)
  case Nil
  then show ?thesis by (simp add: shuffle_def)
next
  case (Cons a as)
  then have "length x - 1 < length x" by simp
  then show ?thesis unfolding shuffle_def by (rule shuffle_from_mset)
qed

lemma shuffle_set: "set (fst (shuffle r x)) = set x"
  using shuffle_mset [of r x] by (metis set_mset_mset)

lemma shuffle_length: "length (fst (shuffle r x)) = length x"
  using shuffle_mset [of r x] by (metis size_mset)

lemma string_constants_nonempty:
  "ascii_lowercase \<noteq> []" "ascii_uppercase \<noteq> []" "ascii_letters \<noteq> []" "digits \<noteq> []"
  "punctuation \<noteq> []"
  by (simp_all add: ascii_lowercase_def ascii_uppercase_def ascii_letters_def digits_def
      punctuation_def)

lemma generate_mixed_short:
  "len < 4 \<Longrightarrow> generate_mixed g len = Inl (ValueError ''Password length must be at least 4'')"
  by (simp add: generate_mixed_def)

lemma generate_alphanumeric_short:
  "len < 2 \<Longrightarrow> generate_alphanumeric g len = Inl (ValueError ''Password length must be at least 2'')"
  by (simp add: generate_alphanumeric_def)

lemma generate_alphanumeric_Inr:
  assumes "2 \<le> len"
  shows "\<exists>pw g'. generate_alphanumeric g len = Inr (pw, g')"
proof -
  obtain c1 r1 where c1: "choice (rng g) ascii_letters = Inr (c1, r1)"
    using choice_Inr [OF string_constants_nonempty(3)] by blast
  obtain c2 r2 where c2: "choice r1 digits = Inr (c2, r2)"
    using choice_Inr [OF string_constants_nonempty(4)] by blast
  have "ascii_letters @ digits \<noteq> []" using string_constants_nonempty(3) by simp
  from choose_n_Inr [OF this] obtain rest r3 where
    rest: "choose_n r2 (ascii_letters @ digits) (nat (len - 2)) = Inr (rest, r3)"
    by blast
  obtain pw r4 where sh: "shuffle r3 ([c1, c2] @ rest) = (pw, r4)"
    by (cases "shuffle r3 ([c1, c2] @ rest)")
  from assms c1 c2 rest sh show ?thesis by (simp add: generate_alphanumeric_def)
qed

lemma generate_mixed_Inr:
  assumes "4 \<le> len"
  shows "\<exists>pw g'. generate_mixed g len = Inr (pw, g')"
proof -
  obtain c1 r1 where c1: "choice (rng g) ascii_lowercase = Inr (c1, r1)"
    using choice_Inr [OF string_constants_nonempty(1)] by blast
  obtain c2 r2 where c2: "choice r1 ascii_uppercase = Inr (c2, r2)"
    using choice_Inr [OF string_constants_nonempty(2)] by blast
  obtain c3 r3 where c3: "choice r2 digits = Inr (c3, r3)"
    using choice_Inr [OF string_constants_nonempty(4)] by blast
  obtain c4 r4 where c4: "choice r3 punctuation = Inr (c4, r4)"
    using choice_Inr [OF string_constants_nonempty(5)] by blast
  have "ascii_letters @ digits @ punctuation \<noteq> []" using string_constants_nonempty(3) by simp
  from choose_n_Inr [OF this] obtain rest r5 where
    rest: "choose_n r4 (ascii_letters @ digits @ punctuation) (nat (len - 4)) = Inr (rest, r5)"
    by blast
  obtain pw r6 where sh: "shuffle r5 ([c1, c2, c3, c4] @ rest) = (pw, r6)"
    by (cases "shuffle r5 ([c1, c2, c3, c4] @ rest)")
  from assms c1 c2 c3 c4 rest sh show ?thesis by (simp add: generate_mixed_def)
qed

lemma str_nat_digit: "n < 10 \<Longrightarrow> str_nat n = [48 + n]"
  by (simp add: str_nat.simps)

lemma randint_digit: "\<exists>d r'. randint r 0 9 = Inr (d, r') \<and> str_int d \<in> (\<lambda>c. [c]) ` set digits"
proof -
  obtain k r' where rb: "randbelow r 10 = (k, r')" by (cases "randbelow r 10")
  with randbelow_less [of 10 r] have k: "k < 10" by simp
  then have "str_int (int k) = [48 + k]" by (simp add: str_int_def str_nat_digit)
  moreover from k have "48 + k \<in> {48..<58}" by simp
  then have "48 + k \<in> set digits" by (simp only: digits_def set_upt)
  ultimately have "str_int (int k) \<in> (\<lambda>c. [c]) ` set digits" by blast
  with rb show ?thesis by (simp add: randint_def)
qed

lemma pin_digits_Inr:
  "\<exists>ds r'. pin_digits r n = Inr (ds, r') \<and> length ds = n \<and> set ds \<subseteq> (\<lambda>c. [c]) ` set digits"
proof (induction n arbitrary: r)
  case 0
  show ?case by simp
next
  case (Suc n)
  from randint_digit obtain d r1 where
    d: "randint r 0 9 = Inr (d, r1)" "str_int d \<in> (\<lambda>c. [c]) ` set digits"
    by blast
  from Suc.IH obtain ds r2 where
    ds: "pin_digits r1 n = Inr (ds, r2)" "length ds = n" "set ds \<subseteq> (\<lambda>c. [c]) ` set digits"
    by blast
  from d ds show ?case by simp
qed

lemma str_join_empty: "str_join [] xs = concat xs"
  by (induction "[] :: nat list" xs rule: str_join.induct) simp_all

lemma concat_singletons:
  "set ds \<subseteq> (\<lambda>c. [c]) ` S \<Longrightarrow> length (concat ds) = length ds \<and> set (concat ds) \<subseteq> S"
  by (induction ds) auto

section \<open>Facts about doubles\<close>

lemma rne_error: "\<bar>of_int (rne y) - y\<bar> \<le> 1 / 2"
proof -
  have "of_int \<lfloor>y\<rfloor> \<le> y" "y < of_int \<lfloor>y\<rfloor> + 1" by linarith+
  then show ?thesis by (auto simp: rne_def Let_def abs_le_iff)
qed

lemma rne_ge_floor: "\<lfloor>y\<rfloor> \<le> rne y"
  by (simp add: rne_def Let_def)

lemma rne_le_ceiling: "rne y \<le> \<lceil>y\<rceil>"
proof (cases "y = of_int \<lfloor>y\<rfloor>")
  case True
  then have "rne y = \<lfloor>y\<rfloor>" by (simp add: rne_def Let_def)
  then show ?thesis by (simp add: floor_le_ceiling)
next
  case False
  then have "\<lceil>y\<rceil> = \<lfloor>y\<rfloor> + 1" by (simp add: ceiling_altdef)
  then show ?thesis by (simp add: rne_def Let_def)
qed

lemma double_ulp_pos: "0 < double_ulp x"
  by (simp add: double_ulp_def)

lemma double_ulp_normal:
  assumes "2 powr (- 1022) \<le> \<bar>x\<bar>"
  shows "double_ulp x = 2 powr (of_int \<lfloor>log 2 \<bar>x\<bar>\<rfloor> - 52)" and "double_ulp x * 2 ^ 52 \<le> \<bar>x\<bar>"
proof -
  have pos: "0 < \<bar>x\<bar>" using assms by (smt (verit) powr_gt_zero)
  have "log 2 (2 powr (- 1022)) \<le> log 2 \<bar>x\<bar>" using assms pos by (subst log_le_cancel_iff) simp_all
  then have "- 1022 \<le> log 2 \<bar>x\<bar>" by simp
  then have "- 1022 \<le> \<lfloor>log 2 \<bar>x\<bar>\<rfloor>" by (simp add: le_floor_iff)
  then have "max \<lfloor>log 2 \<bar>x\<bar>\<rfloor> (- 1022) = \<lfloor>log 2 \<bar>x\<bar>\<rfloor>" by (rule max_absorb1)
  then show u: "double_ulp x = 2 powr (of_int \<lfloor>log 2 \<bar>x\<bar>\<rfloor> - 52)"
    by (simp only: double_ulp_def)
  have "2 powr (of_int \<lfloor>log 2 \<bar>x\<bar>\<rfloor>) \<le> 2 powr (log 2 \<bar>x\<bar>)"
    by (rule powr_mono) simp_all
  also have "\<dots> = \<bar>x\<bar>" using pos by simp
  finally have "2 powr (of_int \<lfloor>log 2 \<bar>x\<bar>\<rfloor>) \<le> \<bar>x\<bar>" .
  moreover have "double_ulp x * 2 ^ 52 = 2 powr (of_int \<lfloor>log 2 \<bar>x\<bar>\<rfloor>)"
    unfolding u by (simp add: powr_diff powr_numeral)
  ultimately show "double_ulp x * 2 ^ 52 \<le> \<bar>x\<bar>" by simp
qed

lemma round_double_abs_error: "x \<noteq> 0 \<Longrightarrow> \<bar>round_double x - x\<bar> \<le> double_ulp x / 2"
proof -
  assume "x \<noteq> 0"
  let ?u = "double_ulp x"
  have u: "0 < ?u" by (rule double_ulp_pos)
  have "round_double x - x = (of_int (rne (x / ?u)) - x / ?u) * ?u"
    using u \<open>x \<noteq> 0\<close> by (simp add: round_double_def field_simps)
  then have "\<bar>round_double x - x\<bar> = \<bar>of_int (rne (x / ?u)) - x / ?u\<bar> * ?u"
    using u by (simp add: abs_mult)
  also have "\<dots> \<le> (1 / 2) * ?u"
    using rne_error [of "x / ?u"] u by (intro mult_right_mono) simp_all
  finally show ?thesis by simp
qed

lemma round_double_error:
  assumes "2 powr (- 1022) \<le> \<bar>x\<bar>"
  shows "\<bar>round_double x - x\<bar> \<le> \<bar>x\<bar> / 2 ^ 53"
proof -
  have "x \<noteq> 0" using assms by (smt (verit) powr_gt_zero abs_zero)
  then have "\<bar>round_double x - x\<bar> \<le> double_ulp x / 2" by (rule round_double_abs_error)
  moreover have "double_ulp x * 2 ^ 52 \<le> \<bar>x\<bar>" using assms by (rule double_ulp_normal)
  ultimately show ?thesis by (simp add: field_simps)
qed

lemma round_double_ge_power:
  assumes "2 powr (of_int k) \<le> \<bar>x\<bar>" and "- 1022 \<le> k"
  shows "2 powr (of_int k) \<le> \<bar>round_double x\<bar>"
proof -
  have "(2::real) powr (- 1022) \<le> 2 powr (of_int k)" using assms(2) by (intro powr_mono) simp_all
  with assms(1) have n: "2 powr (- 1022) \<le> \<bar>x\<bar>" by linarith
  have pos: "0 < \<bar>x\<bar>" using assms(1) by (smt (verit) powr_gt_zero)
  then have x0: "x \<noteq> 0" by auto
  let ?E = "\<lfloor>log 2 \<bar>x\<bar>\<rfloor>" and ?u = "double_ulp x"
  have u: "?u = 2 powr (of_int ?E - 52)" using n by (rule double_ulp_normal)
  have upos: "0 < ?u" by (rule double_ulp_pos)
  have "log 2 (2 powr (of_int k)) \<le> log 2 \<bar>x\<bar>"
    using assms(1) pos by (subst log_le_cancel_iff) simp_all
  then have "of_int k \<le> log 2 \<bar>x\<bar>" by simp
  then have E: "k \<le> ?E" by (simp add: le_floor_iff)
  have p52: "?u * 2 ^ 52 = 2 powr (of_int ?E)" unfolding u by (simp add: powr_diff powr_numeral)
  have "(2::real) powr (of_int k) \<le> 2 powr (of_int ?E)" using E by (intro powr_mono) simp_all
  then have uE: "2 powr (of_int k) \<le> ?u * 2 ^ 52" using p52 by simp
  have le: "?u * 2 ^ 52 \<le> \<bar>x\<bar>" using n by (rule double_ulp_normal)
  have m: "\<bar>round_double x\<bar> = \<bar>of_int (rne (x / ?u))\<bar> * ?u"
    using x0 upos by (simp add: round_double_def abs_mult)
  have "(2::real) ^ 52 \<le> \<bar>of_int (rne (x / ?u))\<bar>"
  proof (cases "0 \<le> x")
    case True
    with le upos have "2 ^ 52 \<le> x / ?u" by (simp add: field_simps)
    then have "(2::int) ^ 52 \<le> \<lfloor>x / ?u\<rfloor>" by (simp add: le_floor_iff)
    with rne_ge_floor [of "x / ?u"] have "(2::int) ^ 52 \<le> rne (x / ?u)" by linarith
    then have "of_int ((2::int) ^ 52) \<le> (of_int (rne (x / ?u)) :: real)" by (simp only: of_int_le_iff)
    then have "(2::real) ^ 52 \<le> of_int (rne (x / ?u))" by simp
    then show ?thesis by linarith
  next
    case False
    with le upos have "x / ?u \<le> - (2 ^ 52)" by (simp add: field_simps)
    then have "\<lceil>x / ?u\<rceil> \<le> - ((2::int) ^ 52)" by (simp add: ceiling_le_iff)
    with rne_le_ceiling [of "x / ?u"] have "rne (x / ?u) \<le> - ((2::int) ^ 52)" by linarith
    then have "of_int (rne (x / ?u)) \<le> (of_int (- ((2::int) ^ 52)) :: real)" by (simp only: of_int_le_iff)
    then have "of_int (rne (x / ?u)) \<le> - ((2::real) ^ 52)" by simp
    then show ?thesis by linarith
  qed
  then have "2 ^ 52 * ?u \<le> \<bar>of_int (rne (x / ?u))\<bar> * ?u" using upos by (intro mult_right_mono) simp_all
  with m uE show ?thesis by (simp add: mult.commute)
qed

lemma round_double_zero: "round_double 0 = 0"
  by (simp add: round_double_def)

lemma double_overflow_pos: "0 < double_overflow"
  by (simp add: double_overflow_def)

text \<open>The rounding error relative to the value, for a value in the normal range.\<close>

lemma round_double_bounds:
  assumes "2 powr (- 1022) \<le> \<bar>x\<bar>"
  shows "\<bar>round_double x\<bar> \<le> 2 * \<bar>x\<bar>"
    and "0 < x \<Longrightarrow> x * (1 - 1 / 2 ^ 53) \<le> round_double x"
proof -
  have e: "\<bar>round_double x - x\<bar> \<le> \<bar>x\<bar> / 2 ^ 53" using assms by (rule round_double_error)
  have "\<bar>x\<bar> / 2 ^ 53 \<le> \<bar>x\<bar>" by (simp add: field_simps)
  with e show "\<bar>round_double x\<bar> \<le> 2 * \<bar>x\<bar>" by linarith
  assume "0 < x"
  with e have "x - x / 2 ^ 53 \<le> round_double x" by linarith
  moreover have "x * (1 - 1 / 2 ^ 53) = x - x / 2 ^ 53" by (simp only: right_diff_distrib mult_1_right times_divide_eq_right)
  ultimately show "x * (1 - 1 / 2 ^ 53) \<le> round_double x" by (simp only:)
qed

lemma int_abs_ge_one: "e \<noteq> 0 \<Longrightarrow> 1 \<le> \<bar>real_of_int e\<bar>"
proof -
  assume "e \<noteq> 0"
  then have "1 \<le> \<bar>e\<bar>" by linarith
  then have "real_of_int 1 \<le> real_of_int \<bar>e\<bar>" by (simp only: of_int_le_iff)
  then show ?thesis by simp
qed

lemma tiny_le: "(2::real) powr (- 1022) \<le> 1 / 128"
proof -
  have "(2::real) powr (- 1022) \<le> 2 powr (- 7)" by (intro powr_mono) simp_all
  also have "\<dots> = 1 / 128" by (simp add: powr_minus powr_numeral field_simps)
  finally show ?thesis .
qed

lemma power_below_overflow:
  assumes "k < 1024"
  shows "(2::real) ^ k < double_overflow"
proof -
  have "(2::real) powr (real k) < 2 powr 1024" using assms by (intro powr_less_mono) simp_all
  moreover have "(2::real) powr (real k) = 2 ^ k" by (simp add: powr_realpow)
  ultimately show ?thesis by (simp only: double_overflow_def)
qed

lemma pow_below_overflow: "(2::real) ^ 1003 < double_overflow"
  by (rule power_below_overflow) simp

lemma log2_range:
  assumes "2 \<le> n" and "n < 2 ^ 63"
  shows "1 \<le> log 2 (real n)" and "log 2 (real n) < 63"
proof -
  have "log 2 2 \<le> log 2 (real n)" using assms(1) by (subst log_le_cancel_iff) simp_all
  then show "1 \<le> log 2 (real n)" by simp
  have "real n < 2 ^ 63" using assms(2) by (metis of_nat_less_iff of_nat_numeral of_nat_power)
  then have "real n < 2 powr 63" by (simp only: powr_numeral zero_less_numeral)
  moreover have "log 2 (real n) < 63 \<longleftrightarrow> real n < 2 powr 63"
    by (rule log_less_iff) (use assms(1) in simp_all)
  ultimately show "log 2 (real n) < 63" by (simp only:)
qed

lemma log2d_range:
  assumes "2 \<le> n" and "n < 2 ^ 63" and "log2_accurate log2d n"
  shows "1 / 2 \<le> log2d n" and "log2d n \<le> 64"
    and "log2d n \<le> log 2 (real n) * (1 + 1 / 2 ^ 52)"
proof -
  let ?t = "log 2 (real n)"
  from log2_range [OF assms(1,2)] have t: "1 \<le> ?t" "?t < 63" .
  from assms(3) have a: "\<bar>log2d n - ?t\<bar> \<le> ?t / 2 ^ 52" by (simp add: log2_accurate_def)
  have s: "?t / 2 ^ 52 \<le> ?t / 64" using t(1) by (intro divide_left_mono) simp_all
  from a s t show "1 / 2 \<le> log2d n" by linarith
  from a s t show "log2d n \<le> 64" by linarith
  from a have "log2d n \<le> ?t + ?t / 2 ^ 52" by linarith
  moreover have "?t * (1 + 1 / 2 ^ 52) = ?t + ?t / 2 ^ 52"
    by (simp only: distrib_left mult_1_right times_divide_eq_right)
  ultimately show "log2d n \<le> ?t * (1 + 1 / 2 ^ 52)" by (simp only:)
qed

lemma words_needed_Inr:
  assumes n: "2 \<le> length ws" "length ws < 2 ^ 63" and acc: "log2_accurate log2d (length ws)"
    and e: "\<bar>e\<bar> < 2 ^ 1000"
  shows "words_needed log2d ws e = Inr (max 3 \<lceil>double_quotient log2d (length ws) e\<rceil>)"
proof -
  let ?L = "log2d (length ws)" and ?F = "round_double (of_int e)"
  let ?q = "round_double (?F / ?L)"
  from log2d_range [OF n acc] have L: "1 / 2 \<le> ?L" "?L \<le> 64" by simp_all
  have ne: "ws \<noteq> []" using n(1) by auto
  have er: "\<bar>real_of_int e\<bar> < 2 ^ 1000"
  proof -
    from e have "real_of_int \<bar>e\<bar> < real_of_int (2 ^ 1000)" by (simp only: of_int_less_iff)
    then show ?thesis by simp
  qed
  have F: "\<bar>?F\<bar> \<le> 2 * \<bar>real_of_int e\<bar>" and q: "\<bar>?q\<bar> \<le> 2 * \<bar>?F / ?L\<bar>"
  proof -
    show Fb: "\<bar>?F\<bar> \<le> 2 * \<bar>real_of_int e\<bar>"
    proof (cases "e = 0")
      case True
      then show ?thesis by (simp add: round_double_zero)
    next
      case False
      then have "1 \<le> \<bar>real_of_int e\<bar>" by (rule int_abs_ge_one)
      with tiny_le have "2 powr (- 1022) \<le> \<bar>real_of_int e\<bar>" by linarith
      then show ?thesis by (rule round_double_bounds)
    qed
    show "\<bar>?q\<bar> \<le> 2 * \<bar>?F / ?L\<bar>"
    proof (cases "e = 0")
      case True
      then show ?thesis by (simp add: round_double_zero)
    next
      case False
      then have one: "1 \<le> \<bar>real_of_int e\<bar>" by (rule int_abs_ge_one)
      with tiny_le have "2 powr (- 1022) \<le> \<bar>real_of_int e\<bar>" by linarith
      then have "\<bar>?F - real_of_int e\<bar> \<le> \<bar>real_of_int e\<bar> / 2 ^ 53" by (rule round_double_error)
      moreover have "\<bar>real_of_int e\<bar> / 2 ^ 53 \<le> \<bar>real_of_int e\<bar> / 2" by (simp add: field_simps)
      ultimately have "1 / 2 \<le> \<bar>?F\<bar>" using one by linarith
      moreover have "\<bar>?F / ?L\<bar> = \<bar>?F\<bar> / ?L" using L(1) by simp
      ultimately have "1 / 2 / 64 \<le> \<bar>?F / ?L\<bar>" using L by (simp add: frac_le)
      with tiny_le have "2 powr (- 1022) \<le> \<bar>?F / ?L\<bar>" by linarith
      then show ?thesis by (rule round_double_bounds)
    qed
  qed
  from F er have Fs: "\<bar>?F\<bar> < 2 ^ 1001" by simp
  have "\<bar>?F / ?L\<bar> = \<bar>?F\<bar> / ?L" using L(1) by simp
  also have "\<dots> \<le> \<bar>?F\<bar> / (1 / 2)" using L(1) by (intro divide_left_mono) simp_all
  finally have "\<bar>?F / ?L\<bar> \<le> 2 * \<bar>?F\<bar>" by simp
  with q Fs have qs: "\<bar>?q\<bar> < 2 ^ 1003" by simp
  have Fo: "\<not> double_overflow \<le> \<bar>?F\<bar>"
  proof -
    have "(2::real) ^ 1001 \<le> 2 ^ 1003" by (intro power_increasing) simp_all
    with Fs pow_below_overflow show ?thesis by linarith
  qed
  have qo: "\<not> double_overflow \<le> \<bar>?q\<bar>" using qs pow_below_overflow by linarith
  have L0: "?L \<noteq> 0" using L(1) by auto
  show ?thesis
    using ne Fo qo L0
    by (simp add: words_needed_def float_of_int_def float_truediv_def math_ceil_def Let_def
        double_quotient_def)
qed

lemma words_needed_overflow:
  assumes "ws \<noteq> []" and "2 ^ 1024 \<le> \<bar>e\<bar>"
  shows "words_needed log2d ws e = Inl OverflowError"
proof -
  from assms(2) have "real_of_int (2 ^ 1024) \<le> real_of_int \<bar>e\<bar>" by (simp only: of_int_le_iff)
  then have "(2::real) ^ 1024 \<le> \<bar>real_of_int e\<bar>" by simp
  moreover have "(2::real) powr (of_int 1024) = 2 ^ 1024"
    by (simp only: of_int_numeral powr_numeral zero_less_numeral)
  ultimately have "2 powr (of_int 1024) \<le> \<bar>real_of_int e\<bar>" by (simp only:)
  then have "2 powr (of_int 1024) \<le> \<bar>round_double (real_of_int e)\<bar>"
    by (rule round_double_ge_power) simp
  then have "double_overflow \<le> \<bar>round_double (real_of_int e)\<bar>"
    by (simp only: double_overflow_def of_int_numeral)
  with assms(1) show ?thesis by (simp add: words_needed_def float_of_int_def Let_def)
qed

lemma double_quotient_lower:
  assumes n: "2 \<le> n" "n < 2 ^ 63" and acc: "log2_accurate log2d n" and e: "0 < e"
  shows "real_of_int e * (1 - 1 / 2 ^ 51) \<le> double_quotient log2d n e * log 2 (real n)"
proof -
  define a :: real where "a = 1 - 1 / 2 ^ 53"
  define b :: real where "b = 1 + 1 / 2 ^ 52"
  define c :: real where "c = 1 - 1 / 2 ^ 51"
  have abc: "c * b \<le> a * a" and a0: "0 \<le> a" and c0: "0 \<le> c"
    by (simp_all add: a_def b_def c_def)
  let ?L = "log2d n" and ?t = "log 2 (real n)" and ?F = "round_double (of_int e)"
  let ?q = "round_double (?F / ?L)" and ?e = "real_of_int e"
  from log2d_range [OF n acc] have L: "1 / 2 \<le> ?L" "?L \<le> 64" "?L \<le> ?t * b"
    by (simp_all add: b_def)
  from log2_range [OF n] have t: "1 \<le> ?t" by simp
  have e1: "1 \<le> ?e" using e by simp
  with tiny_le have ne: "2 powr (- 1022) \<le> \<bar>?e\<bar>" by linarith
  have F: "?e * a \<le> ?F" unfolding a_def using ne by (rule round_double_bounds) (use e in simp)
  have "?e / 2 ^ 53 \<le> ?e / 2" by (intro divide_left_mono) (use e1 in simp_all)
  moreover have "?e * a = ?e - ?e / 2 ^ 53"
    unfolding a_def by (simp only: right_diff_distrib mult_1_right times_divide_eq_right)
  ultimately have Fh: "1 / 2 \<le> ?F" using F e1 by linarith
  have y: "1 / 128 \<le> ?F / ?L"
  proof -
    have "1 / 2 / 64 \<le> ?F / ?L" using Fh L by (intro frac_le) simp_all
    then show ?thesis by simp
  qed
  with tiny_le have "2 powr (- 1022) \<le> \<bar>?F / ?L\<bar>" by linarith
  then have q: "?F / ?L * a \<le> ?q" unfolding a_def by (rule round_double_bounds) (use y in linarith)
  have ec: "0 \<le> ?e * c" using e1 c0 by simp
  have et: "0 \<le> ?e * ?t" using e1 t by simp
  have "?e * c * ?L \<le> ?e * c * (?t * b)" using L(3) ec by (rule mult_left_mono)
  also have "\<dots> = ?e * ?t * (c * b)" by (simp only: ac_simps)
  also have "\<dots> \<le> ?e * ?t * (a * a)" using abc et by (rule mult_left_mono)
  also have "\<dots> = ?e * a * (a * ?t)" by (simp only: ac_simps)
  also have "\<dots> \<le> ?F * (a * ?t)" using F by (rule mult_right_mono) (use a0 t in simp)
  finally have "?e * c * ?L \<le> ?F * (a * ?t)" .
  then have "?e * c \<le> ?F * (a * ?t) / ?L" using L(1) by (simp add: pos_le_divide_eq)
  also have "\<dots> = ?F / ?L * a * ?t" by simp
  also have "\<dots> \<le> ?q * ?t" using q by (rule mult_right_mono) (use t in simp)
  finally show ?thesis by (simp only: c_def double_quotient_def)
qed

lemma log2_7776_bound: "log 2 7776 < 207 / 16"
proof -
  have "(7776::real) ^ 16 < 2 ^ 207" by simp
  then have "(7776::real) ^ 16 < 2 powr 207" by (simp only: powr_numeral zero_less_numeral)
  moreover have "log 2 ((7776::real) ^ 16) < 207 \<longleftrightarrow> (7776::real) ^ 16 < 2 powr 207"
    by (rule log_less_iff) simp_all
  ultimately have "log 2 ((7776::real) ^ 16) < 207" by (simp only:)
  moreover have "log 2 ((7776::real) ^ 16) = 16 * log 2 7776"
    using log_nat_power [of 7776 2 16] by simp
  ultimately show ?thesis by simp
qed

lemma rounded_log2_accurate:
  assumes "2 \<le> n"
  shows "log2_accurate rounded_log2 n"
proof -
  let ?t = "log 2 (real n)"
  have "log 2 2 \<le> ?t" using assms by (subst log_le_cancel_iff) simp_all
  then have t: "1 \<le> ?t" by simp
  with tiny_le have "2 powr (- 1022) \<le> \<bar>?t\<bar>" by linarith
  then have "\<bar>round_double ?t - ?t\<bar> \<le> \<bar>?t\<bar> / 2 ^ 53" by (rule round_double_error)
  moreover have "\<bar>?t\<bar> / 2 ^ 53 \<le> ?t / 2 ^ 52" using t by (simp add: field_simps)
  ultimately show ?thesis unfolding log2_accurate_def rounded_log2_def by linarith
qed

lemma floor_log2_eq:
  assumes "2 powr (of_int k) \<le> x" and "x < 2 powr (of_int k + 1)"
  shows "\<lfloor>log 2 x\<rfloor> = k"
proof -
  have pos: "0 < x" using assms(1) by (smt (verit) powr_gt_zero)
  have "of_int k \<le> log 2 x \<longleftrightarrow> 2 powr (of_int k) \<le> x" by (rule le_log_iff) (use pos in simp_all)
  with assms(1) have lo: "of_int k \<le> log 2 x" by (simp only:)
  have "log 2 x < of_int k + 1 \<longleftrightarrow> x < 2 powr (of_int k + 1)"
    by (rule log_less_iff) (use pos in simp_all)
  with assms(2) have hi: "log 2 x < of_int k + 1" by (simp only:)
  from lo hi show ?thesis by (rule floor_unique)
qed

lemma round_double_one: "round_double 1 = 1"
proof -
  have "double_ulp 1 = 2 powr (- 52)" by (simp add: double_ulp_def)
  also have "\<dots> = 1 / 2 ^ 52" by (simp add: powr_minus powr_numeral field_simps)
  finally have u: "double_ulp 1 = 1 / 2 ^ 52" .
  show ?thesis by (simp add: round_double_def u rne_def)
qed

lemma double_ulp_2_53:
  assumes "2 ^ 53 \<le> x" and "x < 2 ^ 54"
  shows "double_ulp x = 2"
proof -
  have p: "(2::real) powr (of_int 53) = 2 ^ 53" "(2::real) powr (of_int 53 + 1) = 2 ^ 54"
    by (simp_all add: powr_numeral)
  have "\<lfloor>log 2 x\<rfloor> = 53" using assms by (intro floor_log2_eq) (simp_all only: p)
  moreover have "\<bar>x\<bar> = x" using assms(1) by (smt (verit) zero_less_power)
  ultimately show ?thesis by (simp add: double_ulp_def)
qed

lemma round_double_tie: "round_double (2 ^ 53 + 1) = 2 ^ 53"
proof -
  have "double_ulp (2 ^ 53 + 1) = 2" by (rule double_ulp_2_53) simp_all
  then show ?thesis by (simp add: round_double_def rne_def)
qed

lemma round_double_2_53: "round_double (2 ^ 53) = 2 ^ 53"
proof -
  have "double_ulp (2 ^ 53) = 2" by (rule double_ulp_2_53) simp_all
  then show ?thesis by (simp add: round_double_def rne_def)
qed

lemma rounded_log2_two: "rounded_log2 2 = 1"
  by (simp add: rounded_log2_def round_double_one)

lemma words_needed_tie:
  "words_needed rounded_log2 [of_ascii ''able'', of_ascii ''acid''] (2 ^ 53 + 1) = Inr (2 ^ 53)"
proof -
  have o: "\<not> double_overflow \<le> \<bar>(2::real) ^ 53\<bar>"
    using power_below_overflow [of 53] by simp
  have f: "float_of_int (2 ^ 53 + 1) = Inr (2 ^ 53)"
    using o round_double_tie by (simp add: float_of_int_def Let_def)
  have d: "float_truediv (2 ^ 53) 1 = Inr (2 ^ 53)"
    using round_double_2_53 by (simp add: float_truediv_def)
  have c: "math_ceil (2 ^ 53) = Inr (2 ^ 53)"
  proof -
    have "\<lceil>(2::real) ^ 53\<rceil> = 2 ^ 53" by (metis ceiling_of_int of_int_numeral of_int_power)
    with o show ?thesis by (simp only: math_ceil_def if_False)
  qed
  have m: "max 3 ((2::int) ^ 53) = 2 ^ 53" by simp
  show ?thesis
    unfolding words_needed_def Let_def
    by (simp only: list.distinct if_False list.size length_Cons rounded_log2_two f d c m sum.case
        One_nat_def add_Suc_right add_0_right Suc_1 numeral_2_eq_2 [symmetric] of_nat_numeral)
qed

section \<open>The generator\<close>

text \<open>
  Claim C6. For every length of at least 4 and every stream of draws, \<open>generate_mixed\<close>
  returns a string of exactly that many characters, each from the letters, digits and
  punctuation, with at least one lowercase letter, one uppercase letter, one digit and one
  punctuation character: the shuffle permutes the list, so the four characters chosen
  first are still in it.
\<close>

theorem generate_mixed_classes:
  assumes "4 \<le> len"
  shows "\<exists>pw g'. generate_mixed g len = Inr (pw, g') \<and>
           int (length pw) = len \<and>
           set pw \<subseteq> set (ascii_letters @ digits @ punctuation) \<and>
           set pw \<inter> set ascii_lowercase \<noteq> {} \<and>
           set pw \<inter> set ascii_uppercase \<noteq> {} \<and>
           set pw \<inter> set digits \<noteq> {} \<and>
           set pw \<inter> set punctuation \<noteq> {}"
proof -
  let ?charset = "ascii_letters @ digits @ punctuation"
  obtain c1 r1 where c1: "choice (rng g) ascii_lowercase = Inr (c1, r1)" "c1 \<in> set ascii_lowercase"
    using choice_Inr [OF string_constants_nonempty(1)] by blast
  obtain c2 r2 where c2: "choice r1 ascii_uppercase = Inr (c2, r2)" "c2 \<in> set ascii_uppercase"
    using choice_Inr [OF string_constants_nonempty(2)] by blast
  obtain c3 r3 where c3: "choice r2 digits = Inr (c3, r3)" "c3 \<in> set digits"
    using choice_Inr [OF string_constants_nonempty(4)] by blast
  obtain c4 r4 where c4: "choice r3 punctuation = Inr (c4, r4)" "c4 \<in> set punctuation"
    using choice_Inr [OF string_constants_nonempty(5)] by blast
  have "?charset \<noteq> []" using string_constants_nonempty(3) by simp
  from choose_n_Inr [OF this] obtain rest r5 where
    rest: "choose_n r4 ?charset (nat (len - 4)) = Inr (rest, r5)"
      "length rest = nat (len - 4)" "set rest \<subseteq> set ?charset"
    by blast
  let ?built = "[c1, c2, c3, c4] @ rest"
  obtain pw r6 where sh: "shuffle r5 ?built = (pw, r6)" by (cases "shuffle r5 ?built")
  from sh shuffle_set [of r5 ?built] have set_pw: "set pw = set ?built" by simp
  from sh shuffle_length [of r5 ?built] have len_pw: "length pw = length ?built" by simp
  from assms c1(1) c2(1) c3(1) c4(1) rest(1) sh
  have run: "generate_mixed g len = Inr (pw, g\<lparr>rng := r6\<rparr>)"
    by (simp add: generate_mixed_def)
  from len_pw rest(2) assms have l: "int (length pw) = len" by simp
  have lower_in: "set ascii_lowercase \<subseteq> set ?charset" and upper_in: "set ascii_uppercase \<subseteq> set ?charset"
    by (auto simp: ascii_letters_def)
  from set_pw c1(2) c2(2) c3(2) c4(2) rest(3) lower_in upper_in
  have sub: "set pw \<subseteq> set ?charset" by auto
  from set_pw c1(2) have k1: "set pw \<inter> set ascii_lowercase \<noteq> {}" by auto
  from set_pw c2(2) have k2: "set pw \<inter> set ascii_uppercase \<noteq> {}" by auto
  from set_pw c3(2) have k3: "set pw \<inter> set digits \<noteq> {}" by auto
  from set_pw c4(2) have k4: "set pw \<inter> set punctuation \<noteq> {}" by auto
  from run l sub k1 k2 k3 k4 show ?thesis by blast
qed

theorem generate_mixed_classes_witness:
  "\<exists>pw g'. generate_mixed \<lparr>rng = (\<lambda>i. 7 * i + 3), eff_words = []\<rparr> 16 = Inr (pw, g') \<and>
           int (length pw) = 16 \<and>
           set pw \<subseteq> set (ascii_letters @ digits @ punctuation) \<and>
           set pw \<inter> set ascii_lowercase \<noteq> {} \<and>
           set pw \<inter> set ascii_uppercase \<noteq> {} \<and>
           set pw \<inter> set digits \<noteq> {} \<and>
           set pw \<inter> set punctuation \<noteq> {}"
  using generate_mixed_classes [of 16 "\<lparr>rng = (\<lambda>i. 7 * i + 3), eff_words = []\<rparr>"] by simp

text \<open>
  Claim C7. \<open>generate_mixed\<close> fails, with the \<open>ValueError\<close> that the specification calls
  \<open>InvalidLength\<close>, exactly when the length is below 4, and \<open>generate_alphanumeric\<close>
  exactly when it is below 2; otherwise each returns a password. A failure is a value
  \<open>Inl\<close>, which carries no password.
\<close>

theorem generator_minimum_length:
  "(generate_mixed g len = Inl (ValueError ''Password length must be at least 4'')) = (len < 4) \<and>
   (\<exists>pw g'. generate_mixed g len = Inr (pw, g')) = (\<not> len < 4) \<and>
   (generate_alphanumeric g len = Inl (ValueError ''Password length must be at least 2''))
     = (len < 2) \<and>
   (\<exists>pw g'. generate_alphanumeric g len = Inr (pw, g')) = (\<not> len < 2)"
proof -
  have m: "\<exists>pw g'. generate_mixed g len = Inr (pw, g')" if "4 \<le> len"
    using generate_mixed_Inr [OF that, of g] by blast
  have a: "\<exists>pw g'. generate_alphanumeric g len = Inr (pw, g')" if "2 \<le> len"
    using generate_alphanumeric_Inr [OF that, of g] by blast
  show ?thesis
  proof (intro conjI)
    show "(generate_mixed g len = Inl (ValueError ''Password length must be at least 4'')) = (len < 4)"
      using m generate_mixed_short [of len g] by (cases "len < 4") auto
    show "(\<exists>pw g'. generate_mixed g len = Inr (pw, g')) = (\<not> len < 4)"
      using m generate_mixed_short [of len g] by (cases "len < 4") auto
    show "(generate_alphanumeric g len = Inl (ValueError ''Password length must be at least 2''))
        = (len < 2)"
      using a generate_alphanumeric_short [of len g] by (cases "len < 2") auto
    show "(\<exists>pw g'. generate_alphanumeric g len = Inr (pw, g')) = (\<not> len < 2)"
      using a generate_alphanumeric_short [of len g] by (cases "len < 2") auto
  qed
qed

text \<open>\<open>mixed(3)\<close> and \<open>alphanumeric(1)\<close> fail, \<open>mixed(4)\<close> and \<open>alphanumeric(4)\<close> succeed.\<close>

theorem generator_minimum_length_witness:
  "generate_mixed \<lparr>rng = (\<lambda>i. 7 * i + 3), eff_words = []\<rparr> 3
     = Inl (ValueError ''Password length must be at least 4'') \<and>
   (\<exists>pw g'. generate_mixed \<lparr>rng = (\<lambda>i. 7 * i + 3), eff_words = []\<rparr> 4 = Inr (pw, g')) \<and>
   generate_alphanumeric \<lparr>rng = (\<lambda>i. 7 * i + 3), eff_words = []\<rparr> 1
     = Inl (ValueError ''Password length must be at least 2'') \<and>
   (\<exists>pw g'. generate_alphanumeric \<lparr>rng = (\<lambda>i. 7 * i + 3), eff_words = []\<rparr> 4 = Inr (pw, g'))"
  using generator_minimum_length [of "\<lparr>rng = (\<lambda>i. 7 * i + 3), eff_words = []\<rparr>" 3]
    generator_minimum_length [of "\<lparr>rng = (\<lambda>i. 7 * i + 3), eff_words = []\<rparr>" 4]
    generator_minimum_length [of "\<lparr>rng = (\<lambda>i. 7 * i + 3), eff_words = []\<rparr>" 1]
  by simp

text \<open>
  Claim C8, as the code has it. The number of words is computed in doubles. For a word
  list of at least 2 and fewer than \<open>2^63\<close> words, a library \<open>log2\<close> of relative error
  at most \<open>2^-52\<close>, and a requested entropy of magnitude below \<open>2^1000\<close>,
  \<open>generate_passphrase\<close> draws exactly \<open>max(3, ceil(q))\<close> words, all from the list, and
  builds the phrase from them, where \<open>q\<close> is the double quotient of the entropy,
  converted to a float, by \<open>math.log2\<close> of the size. The number of words times
  \<open>log2(size)\<close> is at least the requested entropy times \<open>1 - 2^-51\<close>; for 7776 words
  and 52 bits there are at least 5 words. A requested entropy of magnitude \<open>2^1024\<close> or
  more raises \<open>OverflowError\<close>.
\<close>

theorem generate_passphrase_word_count:
  assumes "2 \<le> length (eff_words g)" and "length (eff_words g) < 2 ^ 63"
    and "log2_accurate log2d (length (eff_words g))"
  shows
    "(\<bar>e\<bar> < 2 ^ 1000 \<longrightarrow>
       (\<exists>words r1.
          select_words log2d g e = Inr (words, r1) \<and>
          int (length words) = max 3 \<lceil>double_quotient log2d (length (eff_words g)) e\<rceil> \<and>
          set words \<subseteq> set (eff_words g) \<and>
          real_of_int e * (1 - 1 / 2 ^ 51)
            \<le> real (length words) * log 2 (real (length (eff_words g))) \<and>
          (length (eff_words g) = 7776 \<and> e = 52 \<longrightarrow> 5 \<le> length words) \<and>
          (\<exists>suffix g'.
             generate_passphrase U log2d g e separator capitalize add_number
               = Inr (str_join separator (if capitalize then map (u_capitalize U) words else words)
                        @ suffix, g') \<and>
             (\<not> add_number \<longrightarrow> suffix = [])))) \<and>
     (2 ^ 1024 \<le> \<bar>e\<bar> \<longrightarrow>
        select_words log2d g e = Inl OverflowError \<and>
        generate_passphrase U log2d g e separator capitalize add_number = Inl OverflowError)"
proof (intro conjI impI)
  let ?n = "length (eff_words g)"
  let ?t = "log 2 (real ?n)"
  let ?q = "double_quotient log2d ?n e"
  let ?c = "max 3 \<lceil>?q\<rceil>"
  from assms(1) have ne: "eff_words g \<noteq> []" by auto
  {
    assume big: "2 ^ 1024 \<le> \<bar>e\<bar>"
    from ne big have "words_needed log2d (eff_words g) e = Inl OverflowError"
      by (rule words_needed_overflow)
    then show sel: "select_words log2d g e = Inl OverflowError" by (simp add: select_words_def)
    then show "generate_passphrase U log2d g e separator capitalize add_number = Inl OverflowError"
      by (simp add: generate_passphrase_def)
  }
  assume small: "\<bar>e\<bar> < 2 ^ 1000"
  from log2_range [OF assms(1,2)] have t: "1 \<le> ?t" by simp
  from assms small have wn: "words_needed log2d (eff_words g) e = Inr ?c" by (rule words_needed_Inr)
  from choose_n_Inr [OF ne] obtain words r1 where
    w: "choose_n (rng g) (eff_words g) (nat ?c) = Inr (words, r1)"
      "length words = nat ?c" "set words \<subseteq> set (eff_words g)"
    by blast
  from w(1) wn have sel: "select_words log2d g e = Inr (words, r1)" by (simp add: select_words_def)
  from w(2) have cnt: "int (length words) = ?c" by simp
  have "?q \<le> real_of_int \<lceil>?q\<rceil>" by (rule le_of_int_ceiling)
  also have "\<dots> \<le> real_of_int ?c" by simp
  also have "\<dots> = real (length words)" using cnt by (metis of_int_of_nat_eq)
  finally have qc: "?q \<le> real (length words)" .
  have ent: "real_of_int e * (1 - 1 / 2 ^ 51) \<le> real (length words) * ?t"
  proof (cases "0 < e")
    case True
    with assms have "real_of_int e * (1 - 1 / 2 ^ 51) \<le> ?q * ?t" by (rule double_quotient_lower)
    also have "\<dots> \<le> real (length words) * ?t" using qc by (rule mult_right_mono) (use t in simp)
    finally show ?thesis .
  next
    case False
    then have "real_of_int e \<le> 0" by simp
    moreover have "(0::real) \<le> 1 - 1 / 2 ^ 51" by simp
    ultimately have "real_of_int e * (1 - 1 / 2 ^ 51) \<le> 0" by (rule mult_nonpos_nonneg)
    moreover have "0 \<le> real (length words) * ?t" using t by simp
    ultimately show ?thesis by linarith
  qed
  have five: "5 \<le> length words" if h: "?n = 7776 \<and> e = 52"
  proof -
    from h have tb: "?t < 207 / 16" using log2_7776_bound by simp
    from h assms have low: "real_of_int 52 * (1 - 1 / 2 ^ 51) \<le> ?q * ?t"
      using double_quotient_lower [of ?n log2d 52] by simp
    have "4 < ?q"
    proof (rule ccontr)
      assume "\<not> 4 < ?q"
      then have "?q \<le> 4" by simp
      then have "?q * ?t \<le> 4 * ?t" by (rule mult_right_mono) (use t in simp)
      with tb have "?q * ?t < 207 / 4" by linarith
      moreover have "(207::real) / 4 < real_of_int 52 * (1 - 1 / 2 ^ 51)" by simp
      ultimately show False using low by linarith
    qed
    then have "real_of_int 4 < ?q" by simp
    then have "4 < \<lceil>?q\<rceil>" by (simp only: less_ceiling_iff)
    then have "5 \<le> ?c" by arith
    with cnt have "5 \<le> int (length words)" by (simp only:)
    then show ?thesis by arith
  qed
  have phrase: "\<exists>suffix g'.
         generate_passphrase U log2d g e separator capitalize add_number
           = Inr (str_join separator (if capitalize then map (u_capitalize U) words else words)
                    @ suffix, g') \<and>
         (\<not> add_number \<longrightarrow> suffix = [])"
  proof (cases add_number)
    case True
    obtain k r2 where "randbelow r1 90 = (k, r2)" by (cases "randbelow r1 90")
    then have "randint r1 10 99 = Inr (10 + int k, r2)" by (simp add: randint_def)
    with sel True show ?thesis by (simp add: generate_passphrase_def)
  next
    case False
    with sel show ?thesis by (simp add: generate_passphrase_def)
  qed
  from sel cnt w(3) ent five phrase
  show "\<exists>words r1.
          select_words log2d g e = Inr (words, r1) \<and>
          int (length words) = max 3 \<lceil>double_quotient log2d (length (eff_words g)) e\<rceil> \<and>
          set words \<subseteq> set (eff_words g) \<and>
          real_of_int e * (1 - 1 / 2 ^ 51)
            \<le> real (length words) * log 2 (real (length (eff_words g))) \<and>
          (length (eff_words g) = 7776 \<and> e = 52 \<longrightarrow> 5 \<le> length words) \<and>
          (\<exists>suffix g'.
             generate_passphrase U log2d g e separator capitalize add_number
               = Inr (str_join separator (if capitalize then map (u_capitalize U) words else words)
                        @ suffix, g') \<and>
             (\<not> add_number \<longrightarrow> suffix = []))"
    by blast
qed

text \<open>
  A list of 7776 words and 52 bits, with a correctly rounded \<open>log2\<close>; and \<open>2^1024\<close> bits.
\<close>

theorem generate_passphrase_word_count_witness:
  "(\<exists>words r1.
      select_words rounded_log2
        \<lparr>rng = (\<lambda>i. 7 * i + 3), eff_words = replicate 7776 (of_ascii ''abacus'')\<rparr> 52
        = Inr (words, r1) \<and>
      5 \<le> length words \<and>
      52 * (1 - 1 / 2 ^ 51) \<le> real (length words) * log 2 7776) \<and>
   select_words rounded_log2
     \<lparr>rng = (\<lambda>i. 7 * i + 3), eff_words = replicate 7776 (of_ascii ''abacus'')\<rparr> (2 ^ 1024)
     = Inl OverflowError"
proof -
  let ?g = "\<lparr>rng = (\<lambda>i. 7 * i + 3), eff_words = replicate 7776 (of_ascii ''abacus'')\<rparr>"
  have a: "2 \<le> length (eff_words ?g)" and b: "length (eff_words ?g) < 2 ^ 63"
    and c: "log2_accurate rounded_log2 (length (eff_words ?g))"
    by (simp_all add: rounded_log2_accurate)
  from generate_passphrase_word_count [OF a b c, of 52 no_unicode "of_ascii ''-''" True True]
  have one: "\<exists>words r1.
      select_words rounded_log2 ?g 52 = Inr (words, r1) \<and>
      5 \<le> length words \<and>
      52 * (1 - 1 / 2 ^ 51) \<le> real (length words) * log 2 7776"
    by auto
  from generate_passphrase_word_count [OF a b c, of "2 ^ 1024" no_unicode "of_ascii ''-''" True True]
  have two: "select_words rounded_log2 ?g (2 ^ 1024) = Inl OverflowError"
    by simp
  from one two show ?thesis by blast
qed

text \<open>
  Claim C8 as stated fails where the doubles round. For a list of 2 words and
  \<open>2^53 + 1\<close> bits the formula over the reals asks for \<open>2^53 + 1\<close> words; the
  conversion of the entropy to a float rounds it to \<open>2^53\<close>, the code draws \<open>2^53\<close>
  words, and their entropy, \<open>2^53\<close> bits, is below the request.
\<close>

theorem generate_passphrase_word_count_counterexample:
  "words_needed rounded_log2 [of_ascii ''able'', of_ascii ''acid''] (2 ^ 53 + 1) = Inr (2 ^ 53) \<and>
   max 3 \<lceil>real_of_int (2 ^ 53 + 1) / log 2 (real (length [of_ascii ''able'', of_ascii ''acid'']))\<rceil>
     = (2 ^ 53 + 1 :: int) \<and>
   real_of_int (2 ^ 53) * log 2 (real (length [of_ascii ''able'', of_ascii ''acid'']))
     < real_of_int (2 ^ 53 + 1) \<and>
   map_sum id (\<lambda>p. int (length (fst p)))
     (select_words rounded_log2
        \<lparr>rng = (\<lambda>i. 7 * i + 3), eff_words = [of_ascii ''able'', of_ascii ''acid'']\<rparr> (2 ^ 53 + 1))
     = Inr (2 ^ 53)"
proof (intro conjI)
  show "words_needed rounded_log2 [of_ascii ''able'', of_ascii ''acid''] (2 ^ 53 + 1) = Inr (2 ^ 53)"
    by (rule words_needed_tie)
  show "max 3 \<lceil>real_of_int (2 ^ 53 + 1) / log 2 (real (length [of_ascii ''able'', of_ascii ''acid'']))\<rceil>
     = (2 ^ 53 + 1 :: int)"
    by simp
  show "real_of_int (2 ^ 53) * log 2 (real (length [of_ascii ''able'', of_ascii ''acid'']))
     < real_of_int (2 ^ 53 + 1)"
    by simp
  have "[of_ascii ''able'', of_ascii ''acid''] \<noteq> []" by simp
  from choose_n_Inr [OF this] obtain words r1 where
    w: "choose_n (\<lambda>i. 7 * i + 3) [of_ascii ''able'', of_ascii ''acid''] (nat (2 ^ 53)) = Inr (words, r1)"
      "length words = nat (2 ^ 53)"
    by blast
  from w(2) have "int (length words) = 2 ^ 53" by simp
  with w(1) words_needed_tie
  show "map_sum id (\<lambda>p. int (length (fst p)))
     (select_words rounded_log2
        \<lparr>rng = (\<lambda>i. 7 * i + 3), eff_words = [of_ascii ''able'', of_ascii ''acid'']\<rparr> (2 ^ 53 + 1))
     = Inr (2 ^ 53)"
    by (simp add: select_words_def)
qed

text \<open>
  Claim C10. \<open>generate_pin\<close> checks no minimum length and never raises: for every integer
  length it returns a string of \<open>length\<close> decimal digits when the length is not negative,
  and the empty string when the length is 0 or negative.
\<close>

theorem generate_pin_digits:
  "\<exists>pw g'. generate_pin g len = Inr (pw, g') \<and>
      length pw = nat len \<and> set pw \<subseteq> set digits \<and> (len \<le> 0 \<longrightarrow> pw = [])"
proof -
  from pin_digits_Inr obtain ds r' where
    ds: "pin_digits (rng g) (nat len) = Inr (ds, r')" "length ds = nat len"
      "set ds \<subseteq> (\<lambda>c. [c]) ` set digits"
    by blast
  let ?pw = "str_join [] ds"
  from ds(1) have run: "generate_pin g len = Inr (?pw, g\<lparr>rng := r'\<rparr>)"
    by (simp add: generate_pin_def)
  from concat_singletons [OF ds(3)] ds(2)
  have l: "length ?pw = nat len" and s: "set ?pw \<subseteq> set digits"
    by (simp_all add: str_join_empty)
  from l have "len \<le> 0 \<longrightarrow> length ?pw = 0" by simp
  then have e: "len \<le> 0 \<longrightarrow> ?pw = []" by simp
  from run l s e show ?thesis by blast
qed

theorem generate_pin_digits_witness:
  "(\<exists>pw g'. generate_pin \<lparr>rng = (\<lambda>i. 7 * i + 3), eff_words = []\<rparr> 6 = Inr (pw, g') \<and>
      length pw = 6 \<and> set pw \<subseteq> set digits) \<and>
   (\<exists>g'. generate_pin \<lparr>rng = (\<lambda>i. 7 * i + 3), eff_words = []\<rparr> (- 2) = Inr ([], g'))"
  using generate_pin_digits [of "\<lparr>rng = (\<lambda>i. 7 * i + 3), eff_words = []\<rparr>" 6]
    generate_pin_digits [of "\<lparr>rng = (\<lambda>i. 7 * i + 3), eff_words = []\<rparr>" "- 2"]
  by auto

section \<open>The dictionary loader and the checker\<close>

lemma decode_ignore_encodable: "list_all encodable (decode_ignore l)"
  by (induction l rule: decode_ignore.induct) simp_all

lemma strip_subset: "set (strip U s) \<subseteq> set s"
proof -
  have "set (strip U s) \<subseteq> set (dropWhile (isspace U) s)"
    unfolding strip_def using set_dropWhileD [of _ "isspace U" "rev (dropWhile (isspace U) s)"]
    by auto
  also have "\<dots> \<subseteq> set s" using set_dropWhileD [of _ "isspace U" s] by auto
  finally show ?thesis .
qed

lemma hash_password_decoded:
  "hash_password sha (strip U (decode_ignore l)) = Inr (digest sha (strip U (decode_ignore l)))"
proof -
  have "list_all encodable (strip U (decode_ignore l))"
    using decode_ignore_encodable [of l] strip_subset [of U "decode_ignore l"]
    by (auto simp: list_all_iff)
  then show ?thesis by (simp add: hash_password_def encode_utf8_def digest_def)
qed

lemma read_lines_eq:
  "read_lines sha U ls hs k = (hs \<union> digest sha ` set (entries U ls), Inr (k + length (entries U ls)))"
proof (induction ls arbitrary: hs k)
  case Nil
  show ?case by (simp add: entries_def)
next
  case (Cons l ls)
  show ?case
  proof (cases "strip U (decode_ignore l) \<noteq> [] \<and> \<not> startswith (strip U (decode_ignore l)) (of_ascii ''#'')")
    case True
    then have e: "entries U (l # ls) = strip U (decode_ignore l) # entries U ls"
      by (simp add: entries_def)
    from True show ?thesis
      by (simp add: Cons.IH hash_password_decoded e Let_def)
  next
    case False
    then have e: "entries U (l # ls) = entries U ls"
      by (auto simp add: entries_def)
    from False show ?thesis
      by (auto simp add: Cons.IH e Let_def)
  qed
qed

lemma load_file_Readable:
  "fs p = Readable ls \<Longrightarrow>
   load_file sha U fs (hs, out) p
     = (hs \<union> digest sha ` set (entries U ls),
        out @ [Loaded (length (entries U ls)) (path_name p)])"
  by (simp add: load_file_def read_lines_eq)

lemma load_file_mono: "fst st \<subseteq> fst (load_file sha U fs st p)"
  by (cases st; cases "fs p") (auto simp: load_file_def read_lines_eq)


lemma foldl_load_mono: "fst st \<subseteq> fst (foldl (load_file sha U fs) st ps)"
proof (induction ps arbitrary: st)
  case Nil
  show ?case by simp
next
  case (Cons p ps)
  have "fst st \<subseteq> fst (load_file sha U fs st p)" by (rule load_file_mono)
  also have "\<dots> \<subseteq> fst (foldl (load_file sha U fs) (load_file sha U fs st p) ps)" by (rule Cons.IH)
  finally show ?case by simp
qed

lemma foldl_load_entries:
  assumes "p \<in> set ps" and "fs p = Readable ls"
  shows "digest sha ` set (entries U ls) \<subseteq> fst (foldl (load_file sha U fs) st ps)"
  using assms(1)
proof (induction ps arbitrary: st)
  case Nil
  then show ?case by simp
next
  case (Cons q qs)
  show ?case
  proof (cases "q = p")
    case True
    obtain hs out where st: "st = (hs, out)" by (cases st)
    have "digest sha ` set (entries U ls) \<subseteq> fst (load_file sha U fs st p)"
      by (simp add: st load_file_Readable [where fs = fs and p = p and ls = ls, OF assms(2)])
    also have "\<dots> \<subseteq> fst (foldl (load_file sha U fs) (load_file sha U fs st p) qs)"
      by (rule foldl_load_mono)
    finally show ?thesis using True by simp
  next
    case False
    with Cons.prems have "p \<in> set qs" by simp
    then show ?thesis using Cons.IH by simp
  qed
qed



lemma sample_line: "strip no_unicode (decode_ignore (map Enc (of_ascii '' password '') @ [Enc 10]))
    = of_ascii ''password''"
  by (simp add: of_ascii_def encodable_def strip_def isspace_def)




text \<open>
  Claim C2. Every line of a readable dictionary file that is neither empty nor a comment
  after trimming is found again: \<open>is_common_password\<close>, on the index built from the
  files, returns true for that trimmed line. The digest function is arbitrary; both sides
  use the same one.
\<close>

theorem loaded_line_is_common:
  assumes "file_path \<in> set file_paths" and "fs file_path = Readable lines"
    and "line \<in> set lines" and "pwd = strip U (decode_ignore line)"
    and "pwd \<noteq> []" and "\<not> startswith pwd (of_ascii ''#'')"
  shows "fst (is_common_password sha
            (PasswordChecker_init (fst (load_password_dictionaries sha U fs file_paths))) pwd)
         = Inr True"
proof -
  from assms(3-6) have "pwd \<in> set (entries U lines)" by (auto simp: entries_def)
  then have "digest sha pwd \<in> digest sha ` set (entries U lines)" by (rule imageI)
  with foldl_load_entries [where fs = fs and p = file_path and ls = lines and sha = sha and U = U
      and st = "({}, [])", OF assms(1,2)]
  have "digest sha pwd \<in> fst (load_password_dictionaries sha U fs file_paths)"
    by (auto simp: load_password_dictionaries_def)
  moreover have "hash_password sha pwd = Inr (digest sha pwd)"
    unfolding assms(4) by (rule hash_password_decoded)
  ultimately show ?thesis
    by (simp add: is_common_password_def PasswordChecker_init_def Let_def)
qed

theorem loaded_line_is_common_witness:
  "fst (is_common_password (\<lambda>bs. bs)
          (PasswordChecker_init
             (fst (load_password_dictionaries (\<lambda>bs. bs) no_unicode sample_fs
                     [''missing.txt'', ''common.txt''])))
          (of_ascii ''password''))
   = Inr True"
  using loaded_line_is_common
    [where file_path = "''common.txt''" and file_paths = "[''missing.txt'', ''common.txt'']"
       and fs = sample_fs and line = "map Enc (of_ascii '' password '') @ [Enc 10]"
       and U = no_unicode and pwd = "of_ascii ''password''" and sha = "\<lambda>bs. bs"
       and lines = "[map Enc (of_ascii ''# worst passwords'') @ [Enc 10],
                     map Enc (of_ascii '' password '') @ [Enc 10],
                     [Enc 10],
                     map Enc (of_ascii ''123456'') @ [Enc 10],
                     map Enc (of_ascii ''zT4qLw9XbV2mKp7RcY8s'') @ [Enc 10]]"]
  by (simp add: sample_fs_def sample_line) (simp add: of_ascii_def startswith_def)




section \<open>The analysis\<close>

lemma analyze_score_is_oracle:
  "fst (analyze U sha zxcvbn self password checker) = Inr r \<Longrightarrow>
   r_score r = z_score (zxcvbn password)"
  by (auto simp: analyze_def is_common_password_def Let_def split: sum.splits)

lemma entries_common:
  "entries no_unicode
     [map Enc (of_ascii ''# worst passwords'') @ [Enc 10],
      map Enc (of_ascii '' password '') @ [Enc 10],
      [Enc 10],
      map Enc (of_ascii ''123456'') @ [Enc 10],
      map Enc (of_ascii ''zT4qLw9XbV2mKp7RcY8s'') @ [Enc 10]]
   = [of_ascii ''password'', of_ascii ''123456'', of_ascii ''zT4qLw9XbV2mKp7RcY8s'']"
  by (simp add: entries_def encodable_def strip_def isspace_def startswith_def of_ascii_def)

lemma load_common:
  "fst (load_password_dictionaries (\<lambda>bs. bs) no_unicode sample_fs [''common.txt''])
   = {of_ascii ''password'', of_ascii ''123456'', of_ascii ''zT4qLw9XbV2mKp7RcY8s''}"
proof -
  have "sample_fs ''common.txt'' = Readable
     [map Enc (of_ascii ''# worst passwords'') @ [Enc 10],
      map Enc (of_ascii '' password '') @ [Enc 10],
      [Enc 10],
      map Enc (of_ascii ''123456'') @ [Enc 10],
      map Enc (of_ascii ''zT4qLw9XbV2mKp7RcY8s'') @ [Enc 10]]"
    by (simp add: sample_fs_def)
  from load_file_Readable [where fs = sample_fs, OF this, of "\<lambda>bs. bs" no_unicode "{}" "[]"]
  show ?thesis
    by (simp add: load_password_dictionaries_def entries_common digest_def)
      (simp add: of_ascii_def utf8_char_def)
qed

lemma analyze_feedback:
  "fst (analyze U sha zxcvbn self password checker) = Inr r \<Longrightarrow>
   r_feedback r = generate_feedback U password (zxcvbn password) (r_is_common r) (r_entropy r)"
  by (auto simp: analyze_def is_common_password_def Let_def split: sum.splits)

text \<open>
  Claim C3. The feedback is the concatenation, in this order, of: the breach warning iff
  the candidate is breached; the estimator's warning iff it is not empty; the estimator's
  suggestions in their order; the advice of at least 12 characters iff the length is below
  12, else that of 16+ iff it is below 16; the low-entropy warning iff the entropy is below
  40; and one message that names every missing kind among lowercase, uppercase, digit and
  special iff one is missing. Every item is included whenever its condition holds.
\<close>

theorem generate_feedback_order:
  "generate_feedback U password z is_common entropy =
     (if is_common then [breach_warning] else []) @
     (if z_warning z \<noteq> [] then [z_warning z] else []) @
     z_suggestions z @
     (if length password < 12 then [of_ascii ''Use at least 12 characters for better security'']
      else if length password < 16
      then [of_ascii ''Consider using 16+ characters for optimal security'']
      else []) @
     (if entropy < 40 then [of_ascii ''Password has low entropy - add more character variety'']
      else []) @
     (if missing_classes U password \<noteq> []
      then [of_ascii ''Add '' @ str_join (of_ascii '', '') (missing_classes U password) @
            of_ascii '' for better security'']
      else [])"
proof -
  let ?l = "list_ex (islower U) password" and ?u = "list_ex (isupper U) password"
    and ?d = "list_ex (isdigit U) password" and ?s = "list_ex (\<lambda>c. \<not> isalnum U c) password"
  have missing:
    "(let missing_types = [];
          missing_types = (if \<not> ?l then missing_types @ [of_ascii ''lowercase letters'']
                           else missing_types);
          missing_types = (if \<not> ?u then missing_types @ [of_ascii ''uppercase letters'']
                           else missing_types);
          missing_types = (if \<not> ?d then missing_types @ [of_ascii ''numbers'']
                           else missing_types);
          missing_types = (if \<not> ?s then missing_types @ [of_ascii ''special characters'']
                           else missing_types)
      in missing_types) = missing_classes U password"
    by (simp add: missing_classes_def)
  show ?thesis
    unfolding generate_feedback_def Let_def
    using missing [unfolded Let_def] by simp
qed

theorem generate_feedback_order_witness:
  "generate_feedback no_unicode (of_ascii ''password'') (sample_zxcvbn (of_ascii ''password'')) True 37 =
     [breach_warning,
      of_ascii ''This is a top-10 common password'',
      of_ascii ''Add another word or two'',
      of_ascii ''Avoid repeats'',
      of_ascii ''Use at least 12 characters for better security'',
      of_ascii ''Password has low entropy - add more character variety'',
      of_ascii ''Add uppercase letters, numbers, special characters for better security'']"
  using generate_feedback_order
    [of no_unicode "of_ascii ''password''" "sample_zxcvbn (of_ascii ''password'')" True 37]
  by (simp add: sample_zxcvbn_def missing_classes_def of_ascii_def islower_def isupper_def
      isdigit_def isalnum_def)

text \<open>
  Claim C1 says that the score of the analysis result is 0 for a breached candidate. In
  the code \<open>analyze\<close> copies the estimator's score and never looks at the breach flag
  for it: a candidate that stands in a loaded dictionary and that the estimator scores 4
  is reported as breached with score 4. The rule itself is in the repository,
  \<open>calculate_password_strength_score\<close> returns 0 for a breached candidate whatever the
  entropy, but \<open>analyze\<close> does not call it.
\<close>

theorem analyze_breached_score_not_zero:
  "map_sum id (\<lambda>r. (r_is_common r, r_score r))
     (fst (analyze no_unicode (\<lambda>bs. bs) sample_zxcvbn \<lparr>analysis_count = 0\<rparr>
        (of_ascii ''zT4qLw9XbV2mKp7RcY8s'')
        (PasswordChecker_init
           (fst (load_password_dictionaries (\<lambda>bs. bs) no_unicode sample_fs [''common.txt''])))))
   = Inr (True, 4) \<and>
   calculate_password_strength_score 200 True = 0"
proof -
  have h: "hash_password (\<lambda>bs. bs) (of_ascii ''zT4qLw9XbV2mKp7RcY8s'')
      = Inr (of_ascii ''zT4qLw9XbV2mKp7RcY8s'')"
    by (simp add: hash_password_def encode_utf8_def encodable_def utf8_char_def of_ascii_def)
  have z: "z_score (sample_zxcvbn (of_ascii ''zT4qLw9XbV2mKp7RcY8s'')) = 4"
    by (simp add: sample_zxcvbn_def of_ascii_def)
  show ?thesis
    by (simp add: analyze_def is_common_password_def PasswordChecker_init_def load_common h z Let_def
        calculate_password_strength_score_def)
qed

end
